theory Spec2Isabelle
  imports Main "HOL-Library.Multiset"
begin

section \<open>Python strings and the parts of the runtime the code calls\<close>

text \<open>
  A Python \<open>str\<close> is a sequence of Unicode code points, so it is modelled as a list of
  natural numbers. The currency sign U+20B9 that the price pattern names is a single code
  point (8377). ASCII literals are written \<open>py ''...''\<close>.
\<close>

type_synonym pstr = "nat list"

definition py :: "string \<Rightarrow> pstr" where
  "py s = map of_char s"

definition dollar :: nat where "dollar = 36"
definition rupee :: nat where "rupee = 8377"
definition comma :: nat where "comma = 44"
definition dot :: nat where "dot = 46"
definition space :: nat where "space = 32"
definition slash :: nat where "slash = 47"

text \<open>
  Whitespace as \<open>str.strip()\<close>, \<open>str.isspace()\<close> and the pattern \<open>\s\<close> of a \<open>str\<close>
  regular expression see it: the Unicode whitespace code points.
\<close>

definition is_space :: "nat \<Rightarrow> bool" where
  "is_space c \<longleftrightarrow>
     (9 \<le> c \<and> c \<le> 13) \<or> (28 \<le> c \<and> c \<le> 32) \<or> c = 133 \<or> c = 160 \<or> c = 5760 \<or>
     (8192 \<le> c \<and> c \<le> 8202) \<or> c = 8232 \<or> c = 8233 \<or> c = 8239 \<or> c = 8287 \<or>
     c = 12288"

text \<open>
  What \<open>Scraper.py\<close> takes from the Python runtime without defining it:
  \<^item> \<open>uni_decimal\<close>: the table of decimal digits beyond ASCII (the pattern \<open>\d\<close> of a
    \<open>str\<close> regular expression matches every Unicode decimal digit; the table grows with
    the Unicode version);
  \<^item> \<open>str_lower\<close>: \<open>str.lower()\<close>;
  \<^item> \<open>float_key\<close>: \<open>float(s)\<close> on a digit string, with values in a linear order;
  \<^item> \<open>set_order\<close>: the order in which a \<open>set\<close> built from a list of distinct strings
    is iterated (it depends on the string hashes).
\<close>

record 'k runtime =
  uni_decimal :: "nat \<Rightarrow> bool"
  str_lower :: "pstr \<Rightarrow> pstr"
  float_key :: "pstr \<Rightarrow> 'k"
  set_order :: "pstr list \<Rightarrow> pstr list"

text \<open>
  The pattern \<open>\d\<close>: an ASCII digit, or a decimal digit of the runtime's table. No Unicode
  decimal digit is a whitespace character or the sign U+20B9, which the definition records.
\<close>

definition is_digit :: "'k runtime \<Rightarrow> nat \<Rightarrow> bool" where
  "is_digit rt c \<longleftrightarrow>
     (48 \<le> c \<and> c \<le> 57) \<or> (128 \<le> c \<and> \<not> is_space c \<and> c \<noteq> rupee \<and> uni_decimal rt c)"

section \<open>Scraper.py: normalize\_price\<close>

datatype pyobj = PyStr pstr | PyOther

text \<open>\<open>str.strip()\<close>: leading and trailing whitespace removed.\<close>

definition strip :: "pstr \<Rightarrow> pstr" where
  "strip s = rev (dropWhile is_space (rev (dropWhile is_space s)))"

text \<open>\<open>re.sub(r'\s+', ' ', price)\<close>: every maximal run of whitespace becomes one space.\<close>

function collapse_ws :: "pstr \<Rightarrow> pstr" where
  "collapse_ws [] = []"
| "collapse_ws (c # s) =
     (if is_space c then space # collapse_ws (dropWhile is_space s) else c # collapse_ws s)"
  by pat_completeness auto
termination
  by (relation "measure length") (auto simp: length_dropWhile_le less_Suc_eq_le)

text \<open>
  The pattern \<open>[$R]?\d+(?:,\d{3})*(?:\.\d{2})?\<close> (with U+20B9 where \<open>R\<close> stands),
  matched at the head of a string.
  Every part after \<open>\d+\<close> is optional, so the greedy choices are never undone: \<open>\d+\<close>
  takes all the digits there are, the starred group as many \<open>,ddd\<close> as follow, and the
  last group \<open>.dd\<close> when it is there. Only the optional currency sign is retried: when no
  number follows the sign, the pattern is tried without it.
\<close>

definition is_currency :: "nat \<Rightarrow> bool" where
  "is_currency c \<longleftrightarrow> c = dollar \<or> c = rupee"

fun thousands :: "'k runtime \<Rightarrow> pstr \<Rightarrow> pstr \<times> pstr" where
  "thousands rt (c # x # y # z # s) =
     (if c = comma \<and> is_digit rt x \<and> is_digit rt y \<and> is_digit rt z
      then (case thousands rt s of (m, r) \<Rightarrow> (c # x # y # z # m, r))
      else ([], c # x # y # z # s))"
| "thousands rt s = ([], s)"

fun fraction :: "'k runtime \<Rightarrow> pstr \<Rightarrow> pstr" where
  "fraction rt (c # x # y # s) =
     (if c = dot \<and> is_digit rt x \<and> is_digit rt y then [c, x, y] else [])"
| "fraction rt s = []"

definition match_number :: "'k runtime \<Rightarrow> pstr \<Rightarrow> pstr option" where
  "match_number rt s =
     (let ds = takeWhile (is_digit rt) s in
      if ds = [] then None
      else (case thousands rt (dropWhile (is_digit rt) s) of
              (g, r) \<Rightarrow> Some (ds @ g @ fraction rt r)))"

definition match_here :: "'k runtime \<Rightarrow> pstr \<Rightarrow> pstr option" where
  "match_here rt s =
     (case s of
        [] \<Rightarrow> None
      | c # s' \<Rightarrow>
          (if is_currency c
           then (case match_number rt s' of
                   Some m \<Rightarrow> Some (c # m)
                 | None \<Rightarrow> match_number rt s)
           else match_number rt s))"

text \<open>\<open>re.search\<close>: the match at the leftmost position that has one.\<close>

fun re_search :: "'k runtime \<Rightarrow> pstr \<Rightarrow> pstr option" where
  "re_search rt [] = None"
| "re_search rt (c # s) =
     (case match_here rt (c # s) of
        Some m \<Rightarrow> Some m
      | None \<Rightarrow> re_search rt s)"

text \<open>The text the pattern is searched in: line breaks replaced by spaces, stripped, and
  whitespace runs collapsed (the first two statements of the function body).\<close>

definition clean_text :: "pstr \<Rightarrow> pstr" where
  "clean_text p =
     collapse_ws (strip (map (\<lambda>c. if c = 10 \<or> c = 13 then space else c) p))"

definition normalize_price :: "'k runtime \<Rightarrow> pyobj \<Rightarrow> pstr" where
  "normalize_price rt price =
     (case price of
        PyOther \<Rightarrow> []
      | PyStr p \<Rightarrow>
          (case re_search rt (clean_text p) of
             Some m \<Rightarrow> filter (\<lambda>c. c \<noteq> comma) m
           | None \<Rightarrow> []))"

text \<open>
  The language of the pattern, written from its parts: an optional currency sign, one or
  more digits, any number of groups of a comma and three digits, and optionally a dot and
  two digits.
\<close>

definition thousands_group :: "'k runtime \<Rightarrow> pstr \<Rightarrow> bool" where
  "thousands_group rt g \<longleftrightarrow>
     (\<exists>x y z. g = [comma, x, y, z] \<and> is_digit rt x \<and> is_digit rt y \<and> is_digit rt z)"

definition decimals :: "'k runtime \<Rightarrow> pstr \<Rightarrow> bool" where
  "decimals rt f \<longleftrightarrow> (\<exists>x y. f = [dot, x, y] \<and> is_digit rt x \<and> is_digit rt y)"

definition price_token :: "'k runtime \<Rightarrow> pstr \<Rightarrow> bool" where
  "price_token rt m \<longleftrightarrow>
     (\<exists>cur ds gs fr. m = cur @ ds @ concat gs @ fr \<and>
        (cur = [] \<or> (\<exists>c. cur = [c] \<and> is_currency c)) \<and>
        ds \<noteq> [] \<and> list_all (is_digit rt) ds \<and>
        list_all (thousands_group rt) gs \<and>
        (fr = [] \<or> decimals rt fr))"

text \<open>A canonical price string: what is left of a token once its commas are removed.\<close>

definition canonical_price :: "'k runtime \<Rightarrow> pstr \<Rightarrow> bool" where
  "canonical_price rt r \<longleftrightarrow>
     (\<exists>cur ds fr. r = cur @ ds @ fr \<and>
        (cur = [] \<or> (\<exists>c. cur = [c] \<and> is_currency c)) \<and>
        ds \<noteq> [] \<and> list_all (is_digit rt) ds \<and>
        (fr = [] \<or> decimals rt fr))"

text \<open>A runtime to evaluate with: ASCII digits only, ASCII lower-casing, the value of a
  digit string in hundredths as its key, sets iterated in insertion order.\<close>

definition ascii_lower :: "pstr \<Rightarrow> pstr" where
  "ascii_lower s = map (\<lambda>c. if 65 \<le> c \<and> c \<le> 90 then c + 32 else c) s"

fun digits_value :: "nat \<Rightarrow> pstr \<Rightarrow> nat" where
  "digits_value acc [] = acc"
| "digits_value acc (c # s) =
     (if 48 \<le> c \<and> c \<le> 57 then digits_value (10 * acc + (c - 48)) s else digits_value acc s)"

definition hundredths :: "pstr \<Rightarrow> nat" where
  "hundredths s =
     (if dot \<in> set s then digits_value 0 s else 100 * digits_value 0 s)"

definition ascii_rt :: "nat runtime" where
  "ascii_rt = \<lparr> uni_decimal = (\<lambda>c. False), str_lower = ascii_lower,
                float_key = hundredths, set_order = (\<lambda>xs. xs) \<rparr>"

section \<open>Scraper.py: requests\_get\_with\_retry and the sitemap walk\<close>

text \<open>
  A response, as far as the script reads it: the texts of the \<open>loc\<close> elements that
  \<open>BeautifulSoup(content, "xml").find_all("loc")\<close> lists, and, for a product page parsed
  with \<open>html.parser\<close>, what the scraping functions select from the page:
  \<^item> \<open>page_title\<close> and \<open>page_sku\<close>: the values of \<open>scrape_title(soup)\<close> and of
    \<open>scrape_sku(soup, url)\<close>, chains of selectors that no statement below depends on;
  \<^item> \<open>price_containers\<close>: for each element that
    \<open>soup.select('div#ProductPrice, div.product__price, div.product-price')\<close> returns, in
    document order, \<open>get_text(strip=True)\<close> of every \<open>span\<close> and \<open>div\<close> below it;
  \<^item> \<open>page_text\<close>: \<open>soup.get_text(separator=' ')\<close>;
  \<^item> \<open>buttons\<close>: for each \<open>button\<close> element its \<open>get_text(strip=True)\<close> and whether it
    has a \<open>disabled\<close> attribute.
\<close>

record button =
  btn_text :: pstr
  btn_disabled :: bool

record soup =
  page_title :: pstr
  page_sku :: "pstr \<Rightarrow> pstr"
  price_containers :: "pstr list list"
  page_text :: pstr
  buttons :: "button list"

record response =
  resp_locs :: "pstr list"
  resp_page :: soup

definition MAX_RETRIES :: nat where
  "MAX_RETRIES = 3"

text \<open>
  The network is a function \<open>http url attempt\<close>: the response of
  \<open>requests.get\<close> followed by \<open>raise_for_status\<close> at the given attempt for the URL, or
  \<open>None\<close> when either raises. The loop runs over \<open>range(1, MAX_RETRIES + 1)\<close>; the
  \<open>except Exception\<close> clause turns every failure into a retry or, at the last attempt,
  into the return value \<open>None\<close>.
\<close>

fun retry_loop :: "(nat \<Rightarrow> response option) \<Rightarrow> nat list \<Rightarrow> response option" where
  "retry_loop attempt_result [] = None"
| "retry_loop attempt_result (attempt # rest) =
     (case attempt_result attempt of
        Some r \<Rightarrow> Some r
      | None \<Rightarrow> if attempt = MAX_RETRIES then None else retry_loop attempt_result rest)"

definition requests_get_with_retry ::
    "(pstr \<Rightarrow> nat \<Rightarrow> response option) \<Rightarrow> pstr \<Rightarrow> response option" where
  "requests_get_with_retry http url = retry_loop (http url) [1..<MAX_RETRIES + 1]"

text \<open>\<open>needle in haystack\<close> on strings.\<close>

fun starts_with :: "pstr \<Rightarrow> pstr \<Rightarrow> bool" where
  "starts_with s [] = True"
| "starts_with [] (c # n) = False"
| "starts_with (d # s) (c # n) = (d = c \<and> starts_with s n)"

fun contains :: "pstr \<Rightarrow> pstr \<Rightarrow> bool" where
  "contains needle [] = (needle = [])"
| "contains needle (c # s) = (starts_with (c # s) needle \<or> contains needle s)"

text \<open>
  \<open>list(OrderedDict.fromkeys(product_urls))\<close>: the keys are inserted one by one; a key
  that is already there keeps its place.
\<close>

fun fromkeys :: "pstr list \<Rightarrow> pstr list \<Rightarrow> pstr list" where
  "fromkeys keys [] = keys"
| "fromkeys keys (x # xs) = fromkeys (if x \<in> set keys then keys else keys @ [x]) xs"

definition ordered_unique :: "pstr list \<Rightarrow> pstr list" where
  "ordered_unique xs = fromkeys [] xs"

definition MAIN_SITEMAP_URL :: pstr where
  "MAIN_SITEMAP_URL = py ''https://nidhiratna.com/sitemap.xml''"

definition sitemap_urls_of :: "response \<Rightarrow> pstr list" where
  "sitemap_urls_of r = map strip (filter (contains (py ''sitemap_products'')) (resp_locs r))"

text \<open>The loop over the product sitemaps: a sitemap that cannot be fetched is skipped.\<close>

fun fetch_product_urls ::
    "(pstr \<Rightarrow> nat \<Rightarrow> response option) \<Rightarrow> pstr list \<Rightarrow> pstr list \<Rightarrow> pstr list" where
  "fetch_product_urls http product_urls [] = product_urls"
| "fetch_product_urls http product_urls (sitemap_url # rest) =
     (case requests_get_with_retry http sitemap_url of
        None \<Rightarrow> fetch_product_urls http product_urls rest
      | Some r \<Rightarrow>
          fetch_product_urls http
            (product_urls @ filter (contains (py ''/products/'')) (resp_locs r)) rest)"

text \<open>The list \<open>urls\<close> that one sitemap adds (nothing when it is skipped).\<close>

definition urls_of_sitemap :: "(pstr \<Rightarrow> nat \<Rightarrow> response option) \<Rightarrow> pstr \<Rightarrow> pstr list" where
  "urls_of_sitemap http sitemap_url =
     (case requests_get_with_retry http sitemap_url of
        None \<Rightarrow> []
      | Some r \<Rightarrow> filter (contains (py ''/products/'')) (resp_locs r))"

text \<open>The discovery as a whole; \<open>None\<close> is \<open>exit(1)\<close> when the master sitemap fails.\<close>

definition discover :: "(pstr \<Rightarrow> nat \<Rightarrow> response option) \<Rightarrow> pstr list option" where
  "discover http =
     (case requests_get_with_retry http MAIN_SITEMAP_URL of
        None \<Rightarrow> None
      | Some r \<Rightarrow> Some (ordered_unique (fetch_product_urls http [] (sitemap_urls_of r))))"

text \<open>A small site to evaluate with: the master sitemap answers at the third attempt and
  names one product sitemap, which lists four product URLs, one of them twice.\<close>

definition no_page :: soup where
  "no_page = \<lparr> page_title = [], page_sku = (\<lambda>url. []), price_containers = [],
               page_text = [], buttons = [] \<rparr>"

definition sample_master :: response where
  "sample_master = \<lparr> resp_locs = [py '' /sitemap_products_1.xml '', py ''/sitemap_pages_1.xml''],
                     resp_page = no_page \<rparr>"

definition sample_sitemap :: response where
  "sample_sitemap = \<lparr> resp_locs = [py ''/products/a'', py ''/products/b'', py ''/products/a'',
                                    py ''/pages/about'', py ''/products/c''],
                      resp_page = no_page \<rparr>"

definition sample_http :: "pstr \<Rightarrow> nat \<Rightarrow> response option" where
  "sample_http url attempt =
     (if url = MAIN_SITEMAP_URL then (if attempt = 3 then Some sample_master else None)
      else if url = py ''/sitemap_products_1.xml'' then Some sample_sitemap
      else None)"

text \<open>The position at which a value is first seen in a list (its length when absent).\<close>

definition first_seen :: "pstr list \<Rightarrow> pstr \<Rightarrow> nat" where
  "first_seen xs a = length (takeWhile (\<lambda>y. y \<noteq> a) xs)"

section \<open>Scraper.py: scrape\_prices and scrape\_availability\<close>

text \<open>
  The prices of one container: each text normalized, the empty results and the exact
  value \<open>$0.00\<close> left out.
\<close>

definition prices_found :: "'k runtime \<Rightarrow> pstr list \<Rightarrow> pstr list" where
  "prices_found rt container =
     filter (\<lambda>price. price \<noteq> [] \<and> price \<noteq> py ''$0.00'')
       (map (\<lambda>text. normalize_price rt (PyStr text)) container)"

text \<open>
  The sort key \<open>float(x.replace('$','').replace(R,''))\<close>, with U+20B9 where \<open>R\<close>
  stands. \<open>sorted(set(prices_found), key=...)\<close>: the set holds the distinct prices, the
  runtime decides in which order they are iterated, and \<open>sorted\<close> is a stable sort, as
  \<open>sort_key\<close> is. Every string the key is computed for is a canonical price string
  (lemma \<open>prices_found_canonical\<close>), on which \<open>float\<close> does not raise.
\<close>

definition price_key :: "'k runtime \<Rightarrow> pstr \<Rightarrow> 'k" where
  "price_key rt x = float_key rt (filter (\<lambda>c. c \<noteq> dollar \<and> c \<noteq> rupee) x)"

definition sorted_prices :: "('k::linorder) runtime \<Rightarrow> pstr list \<Rightarrow> pstr list" where
  "sorted_prices rt container =
     sort_key (price_key rt) (set_order rt (ordered_unique (prices_found rt container)))"

text \<open>Python truth of \<open>sale_price\<close> and \<open>regular_price\<close>: \<open>None\<close> and \<open>""\<close> are false.\<close>

definition truthy :: "pstr option \<Rightarrow> bool" where
  "truthy v \<longleftrightarrow> (case v of None \<Rightarrow> False | Some s \<Rightarrow> s \<noteq> [])"

definition or_empty :: "pstr option \<Rightarrow> pstr" where
  "or_empty v = (case v of None \<Rightarrow> [] | Some s \<Rightarrow> s)"

fun scan_containers ::
    "('k::linorder) runtime \<Rightarrow> pstr option \<times> pstr option \<Rightarrow> pstr list list
       \<Rightarrow> pstr option \<times> pstr option" where
  "scan_containers rt (sale_price, regular_price) [] = (sale_price, regular_price)"
| "scan_containers rt (sale_price, regular_price) (container # rest) =
     (let found = sorted_prices rt container;
          (sale_price', regular_price') =
             (if length found = 1 then (Some (hd found), Some (hd found))
              else if length found \<ge> 2 then (Some (hd found), Some (last found))
              else (sale_price, regular_price))
      in if truthy sale_price' \<and> truthy regular_price'
         then (sale_price', regular_price')
         else scan_containers rt (sale_price', regular_price') rest)"

definition scrape_prices :: "('k::linorder) runtime \<Rightarrow> soup \<Rightarrow> pstr \<times> pstr" where
  "scrape_prices rt page =
     (case scan_containers rt (None, None) (price_containers page) of
        (sale_price, regular_price) \<Rightarrow> (or_empty sale_price, or_empty regular_price))"

text \<open>A runtime's set iteration is sound when it lists exactly the elements it is given.\<close>

definition iterates_sets :: "'k runtime \<Rightarrow> bool" where
  "iterates_sets rt \<longleftrightarrow> (\<forall>xs. mset (set_order rt xs) = mset xs)"

text \<open>A page to evaluate with: one price container with the four text fragments
  \<open>$20.00\<close>, \<open>$20.00\<close>, \<open>$0.00\<close>, \<open>$15.00\<close>.\<close>

definition sample_page :: soup where
  "sample_page =
     no_page \<lparr> price_containers := [[py ''$20.00'', py ''$20.00'', py ''$0.00'', py ''$15.00'']] \<rparr>"

definition sold_out_texts :: "pstr list" where
  "sold_out_texts = [py ''sold out'', py ''out of stock'', py ''unavailable'']"

definition cart_phrase :: "pstr \<Rightarrow> bool" where
  "cart_phrase t \<longleftrightarrow>
     contains (py ''add to cart'') t \<or> contains (py ''buy now'') t \<or>
     contains (py ''add to bag'') t"

fun buttons_loop :: "'k runtime \<Rightarrow> button list \<Rightarrow> pstr" where
  "buttons_loop rt [] = py ''Unknown''"
| "buttons_loop rt (btn # rest) =
     (if cart_phrase (str_lower rt (btn_text btn))
      then (if \<not> btn_disabled btn then py ''Available'' else buttons_loop rt rest)
      else buttons_loop rt rest)"

definition scrape_availability :: "'k runtime \<Rightarrow> soup \<Rightarrow> pstr" where
  "scrape_availability rt page =
     (if list_ex (\<lambda>x. contains x (str_lower rt (page_text page))) sold_out_texts
      then py ''Sold Out''
      else buttons_loop rt (buttons page))"

text \<open>Two pages to evaluate with: one that says \<open>SOLD OUT\<close> next to an enabled
  \<open>Add to Cart\<close> button, and one with the button only.\<close>

definition sold_out_page :: soup where
  "sold_out_page =
     no_page \<lparr> page_text := py ''Gold Ring SOLD OUT'',
               buttons := [\<lparr> btn_text = py ''Add to Cart'', btn_disabled = False \<rparr>] \<rparr>"

definition in_stock_page :: soup where
  "in_stock_page =
     no_page \<lparr> page_text := py ''Gold Ring'',
               buttons := [\<lparr> btn_text = py ''Add to Cart'', btn_disabled = False \<rparr>] \<rparr>"

text \<open>Substring, as the specification reads "contains".\<close>

definition substring :: "pstr \<Rightarrow> pstr \<Rightarrow> bool" where
  "substring needle s \<longleftrightarrow> (\<exists>pre post. s = pre @ needle @ post)"

section \<open>Scraper.py: the product loop\<close>

record product =
  Title :: pstr
  SKU :: pstr
  Sale_Price :: pstr
  Regular_Price :: pstr
  Availability :: pstr
  Link :: pstr
  Date :: pstr

definition scrape_page :: "('k::linorder) runtime \<Rightarrow> pstr \<Rightarrow> pstr \<Rightarrow> soup \<Rightarrow> product" where
  "scrape_page rt today url page =
     (case scrape_prices rt page of
        (sale_price, regular_price) \<Rightarrow>
          \<lparr> Title = page_title page, SKU = page_sku page url,
            Sale_Price = sale_price, Regular_Price = regular_price,
            Availability = scrape_availability rt page, Link = url, Date = today \<rparr>)"

text \<open>
  The loop over \<open>product_urls\<close>, with its two accumulators \<open>results\<close> and \<open>errors\<close>: a
  URL whose fetch returns \<open>None\<close> is appended to \<open>errors\<close> and the loop goes on.
\<close>

fun scrape_products ::
    "('k::linorder) runtime \<Rightarrow> (pstr \<Rightarrow> nat \<Rightarrow> response option) \<Rightarrow> pstr
       \<Rightarrow> product list \<times> pstr list \<Rightarrow> pstr list \<Rightarrow> product list \<times> pstr list" where
  "scrape_products rt http today (results, errors) [] = (results, errors)"
| "scrape_products rt http today (results, errors) (url # rest) =
     (case requests_get_with_retry http url of
        None \<Rightarrow> scrape_products rt http today (results, errors @ [url]) rest
      | Some r \<Rightarrow>
          scrape_products rt http today
            (results @ [scrape_page rt today url (resp_page r)], errors) rest)"

text \<open>\<open>pd.DataFrame(results).drop_duplicates(subset="Link")\<close>: the first row of each link.\<close>

fun drop_duplicates :: "pstr list \<Rightarrow> product list \<Rightarrow> product list" where
  "drop_duplicates seen [] = []"
| "drop_duplicates seen (row # rest) =
     (if Link row \<in> set seen then drop_duplicates seen rest
      else row # drop_duplicates (Link row # seen) rest)"

text \<open>The crawl: the snapshot that is saved and the URLs reported as failed at the end.\<close>

definition crawl ::
    "('k::linorder) runtime \<Rightarrow> (pstr \<Rightarrow> nat \<Rightarrow> response option) \<Rightarrow> pstr \<Rightarrow> pstr list
       \<Rightarrow> product list \<times> pstr list" where
  "crawl rt http today product_urls =
     (case scrape_products rt http today ([], []) product_urls of
        (results, errors) \<Rightarrow> (drop_duplicates [] results, errors))"

section \<open>Scraper.py: the comparison with the previous snapshot\<close>

text \<open>
  A cell of a frame that \<open>pd.read_csv\<close> returns: an empty field is read as \<open>NaN\<close>, a
  field of a column whose fields are all numbers as a float, any other field as a string.
\<close>

datatype 'f cell = NaN | Str pstr | Num 'f

text \<open>
  A row of the previous file \<open>nidhi_prices.csv\<close>, with the columns the comparison reads.
  The file is one that an earlier run of the script wrote, so it has all the columns;
  the links are strings.
\<close>

record 'f old_row =
  old_Link :: pstr
  old_Sale_Price :: "'f cell"
  old_Regular_Price :: "'f cell"

text \<open>The previous file: absent, unreadable (\<open>pd.read_csv\<close> raises, as it does on an
  empty file), or read as a frame.\<close>

datatype 'f old_csv = No_file | Unreadable | Old_frame "'f old_row list"

text \<open>
  Python's \<open>old != new\<close> and the truth value of \<open>old\<close>, for a cell of the old frame and
  a string of the new one: \<open>NaN\<close> differs from everything and is true; a float differs
  from every string and is true unless it is zero; a string is true unless it is empty.
\<close>

definition differs :: "'f cell \<Rightarrow> pstr \<Rightarrow> bool" where
  "differs old new = (case old of Str s \<Rightarrow> s \<noteq> new | NaN \<Rightarrow> True | Num v \<Rightarrow> True)"

definition cell_truthy :: "('f::zero) cell \<Rightarrow> bool" where
  "cell_truthy old = (case old of Str s \<Rightarrow> s \<noteq> [] | NaN \<Rightarrow> True | Num v \<Rightarrow> v \<noteq> 0)"

text \<open>The condition of line 237 on a row of the merged frame.\<close>

definition price_changed :: "('f::zero) old_row \<times> product \<Rightarrow> bool" where
  "price_changed row =
     (case row of (old, new) \<Rightarrow>
        (differs (old_Sale_Price old) (Sale_Price new) \<or>
         differs (old_Regular_Price old) (Regular_Price new)) \<and>
        cell_truthy (old_Sale_Price old) \<and> Sale_Price new \<noteq> [])"

text \<open>\<open>pd.merge(old_df, new_df, on="Link")\<close>: the inner join, a row for every pair of an
  old and a new row with the same link.\<close>

definition merge_on_link :: "'f old_row list \<Rightarrow> product list \<Rightarrow> ('f old_row \<times> product) list" where
  "merge_on_link old_df new_df =
     concat (map (\<lambda>old. map (\<lambda>new. (old, new)) (filter (\<lambda>new. Link new = old_Link old) new_df))
               old_df)"

datatype outcome = Compared | No_previous_data | Link_column_missing | Failed_to_compare

record 'f report =
  outcome :: outcome
  price_changes_logged :: "('f old_row \<times> product) list"
  new_products :: "product list"
  removed_products :: "pstr set"

definition nothing_reported :: "outcome \<Rightarrow> 'f report" where
  "nothing_reported how =
     \<lparr> outcome = how, price_changes_logged = [], new_products = [], removed_products = {} \<rparr>"

text \<open>
  Lines 219 to 274. The frame of an empty \<open>results\<close> list has no columns, so the
  comparison is skipped with a warning then; without a previous file the script only logs
  that the new data is saved as the baseline.
\<close>

definition compare :: "('f::zero) old_csv \<Rightarrow> product list \<Rightarrow> 'f report" where
  "compare previous results =
     (case previous of
        No_file \<Rightarrow> nothing_reported No_previous_data
      | Unreadable \<Rightarrow> nothing_reported Failed_to_compare
      | Old_frame old_df \<Rightarrow>
          if results = [] then nothing_reported Link_column_missing
          else
            (let new_df = drop_duplicates [] results;
                 merged = merge_on_link old_df new_df;
                 old_links = set (map old_Link old_df);
                 new_links = set (map Link new_df)
             in \<lparr> outcome = Compared,
                  price_changes_logged = filter price_changed merged,
                  new_products = filter (\<lambda>item. Link item \<notin> old_links) results,
                  removed_products = old_links - new_links \<rparr>))"

section \<open>app.py: the dashboard's comparison with the baseline\<close>

text \<open>
  What \<open>app.py\<close> takes from the Python runtime: \<open>str.lower()\<close>; \<open>float(s)\<close>, with
  \<open>None\<close> when it raises; \<open>round(v, 2)\<close>; \<open>str(v)\<close> of a float; and \<open>v != w\<close> on floats
  (true when either is not a number).
\<close>

record 'f dash_runtime =
  lower :: "pstr \<Rightarrow> pstr"
  to_float :: "pstr \<Rightarrow> 'f option"
  round2 :: "'f \<Rightarrow> 'f"
  float_str :: "'f \<Rightarrow> pstr"
  float_differs :: "'f \<Rightarrow> 'f \<Rightarrow> bool"

text \<open>
  A row of the current file \<open>nidhi_prices.csv\<close> (written by \<open>Scraper.py\<close>, so with all
  its columns), and the baseline \<open>nidhi_prices_prev.csv\<close> with the columns it has. A
  cell of a baseline row is read only when the frame has its column.
\<close>

record 'f cur_row =
  cur_Title :: "'f cell"
  cur_SKU :: "'f cell"
  cur_Sale_Price :: "'f cell"
  cur_Regular_Price :: "'f cell"
  cur_Availability :: "'f cell"
  cur_Link :: pstr

record 'f prev_row =
  prev_Link :: pstr
  prev_Sale_Price :: "'f cell"
  prev_Regular_Price :: "'f cell"
  prev_Title :: "'f cell"

record 'f prev_frame =
  prev_columns :: "string list"
  prev_rows :: "'f prev_row list"

text \<open>A row of \<open>merged\<close>: the current row and the columns with the suffix \<open>_old\<close>.\<close>

record 'f merged_row =
  current :: "'f cur_row"
  Sale_Price_old :: "'f cell"
  Regular_Price_old :: "'f cell"
  Title_old :: "'f cell"

text \<open>\<open>.str.lower().str.rstrip('/')\<close>: lower-cased, every trailing slash removed.\<close>

definition normalize_link :: "'f dash_runtime \<Rightarrow> pstr \<Rightarrow> pstr" where
  "normalize_link rt link = rev (dropWhile (\<lambda>c. c = slash) (rev (lower rt link)))"

definition fillna :: "'f cell \<Rightarrow> 'f cell" where
  "fillna c = (case c of NaN \<Rightarrow> Str [] | _ \<Rightarrow> c)"

text \<open>
  Lines 50 to 64 and 88: a baseline is there when the frame has rows and a \<open>Link\<close>
  column. Then its links are normalized, and each price column is filled, or added with
  empty strings when the frame lacks it.
\<close>

definition has_baseline :: "'f prev_frame \<Rightarrow> bool" where
  "has_baseline prev_df \<longleftrightarrow> prev_rows prev_df \<noteq> [] \<and> ''Link'' \<in> set (prev_columns prev_df)"

definition prepare_prev :: "'f dash_runtime \<Rightarrow> 'f prev_frame \<Rightarrow> 'f prev_row list" where
  "prepare_prev rt prev_df =
     map (\<lambda>p. p \<lparr> prev_Link := normalize_link rt (prev_Link p),
                  prev_Sale_Price :=
                    (if ''Sale_Price'' \<in> set (prev_columns prev_df)
                     then fillna (prev_Sale_Price p) else Str []),
                  prev_Regular_Price :=
                    (if ''Regular_Price'' \<in> set (prev_columns prev_df)
                     then fillna (prev_Regular_Price p) else Str []) \<rparr>)
       (prev_rows prev_df)"

text \<open>
  Lines 98 to 105: \<open>needed_cols\<close> is \<open>Link\<close>, \<open>Sale_Price\<close>, \<open>Regular_Price\<close> and
  \<open>Title\<close>. The first three are columns of the prepared frame; when \<open>Title\<close> is not,
  only the links are kept and the prices and the title are set to empty strings.
\<close>

definition prev_prices :: "'f dash_runtime \<Rightarrow> 'f prev_frame \<Rightarrow> 'f prev_row list" where
  "prev_prices rt prev_df =
     (if ''Title'' \<in> set (prev_columns prev_df) then prepare_prev rt prev_df
      else map (\<lambda>p. p \<lparr> prev_Sale_Price := Str [], prev_Regular_Price := Str [],
                         prev_Title := Str [] \<rparr>)
             (prepare_prev rt prev_df))"

text \<open>
  The other copy of the dashboard, \<open>Final Final/app.py\<close> (lines 89 to 95), has
  \<open>needed_cols\<close> without \<open>Title\<close>: there the prepared frame always has the needed
  columns and its prices are kept.
\<close>

definition prev_prices_final :: "'f dash_runtime \<Rightarrow> 'f prev_frame \<Rightarrow> 'f prev_row list" where
  "prev_prices_final rt prev_df = prepare_prev rt prev_df"

text \<open>\<open>pd.merge(df, prev_prices, on='Link', how='left', suffixes=('', '_old'))\<close>: a row
  for every baseline row with the link of the current row, and one row with \<open>NaN\<close> in the
  old columns when there is none.\<close>

definition left_merge :: "'f cur_row list \<Rightarrow> 'f prev_row list \<Rightarrow> 'f merged_row list" where
  "left_merge df prev =
     concat (map (\<lambda>r.
        (case filter (\<lambda>p. prev_Link p = cur_Link r) prev of
           [] \<Rightarrow> [\<lparr> current = r, Sale_Price_old = NaN, Regular_Price_old = NaN, Title_old = NaN \<rparr>]
         | ms \<Rightarrow> map (\<lambda>p. \<lparr> current = r, Sale_Price_old = prev_Sale_Price p,
                             Regular_Price_old = prev_Regular_Price p,
                             Title_old = prev_Title p \<rparr>) ms)) df)"

text \<open>
  \<open>safe_float\<close>: \<open>str(p)\<close> without the currency signs and the commas, stripped, read by
  \<open>float\<close> and rounded; \<open>None\<close> when anything raises, as \<open>float('')\<close> does.
\<close>

definition cell_str :: "'f dash_runtime \<Rightarrow> 'f cell \<Rightarrow> pstr" where
  "cell_str rt p = (case p of Str s \<Rightarrow> s | NaN \<Rightarrow> py ''nan'' | Num v \<Rightarrow> float_str rt v)"

definition safe_float :: "'f dash_runtime \<Rightarrow> 'f cell \<Rightarrow> 'f option" where
  "safe_float rt p =
     (let s = strip (filter (\<lambda>c. c \<noteq> dollar \<and> c \<noteq> rupee \<and> c \<noteq> comma) (cell_str rt p))
      in if s = [] then None
         else (case to_float rt s of None \<Rightarrow> None | Some v \<Rightarrow> Some (round2 rt v)))"

text \<open>\<open>format_price_changes\<close>: the list \<open>changes\<close>; the function returns \<open>"-"\<close> when
  it is empty.\<close>

datatype 'f change = Regular_Price_change 'f 'f | Sale_Price_change 'f 'f

definition format_price_changes :: "'f dash_runtime \<Rightarrow> 'f merged_row \<Rightarrow> 'f change list" where
  "format_price_changes rt row =
     (case (safe_float rt (cur_Regular_Price (current row)), safe_float rt (Regular_Price_old row)) of
        (Some reg_new, Some reg_old) \<Rightarrow>
          if float_differs rt reg_new reg_old then [Regular_Price_change reg_old reg_new] else []
      | _ \<Rightarrow> []) @
     (case (safe_float rt (cur_Sale_Price (current row)), safe_float rt (Sale_Price_old row)) of
        (Some sale_new, Some sale_old) \<Rightarrow>
          if float_differs rt sale_new sale_old then [Sale_Price_change sale_old sale_new] else []
      | _ \<Rightarrow> [])"

text \<open>What the dashboard shows; \<open>Stopped\<close> is \<open>st.stop()\<close> on an empty current frame.\<close>

record 'f view =
  all_products :: "'f cur_row list"
  merged :: "'f merged_row list"
  filtered_changes :: "'f merged_row list"
  new_products_shown :: "'f merged_row list"

datatype 'f screen = Stopped | Shown "'f view"

definition dashboard :: "'f dash_runtime \<Rightarrow> 'f cur_row list \<Rightarrow> 'f prev_frame \<Rightarrow> 'f screen" where
  "dashboard rt df prev_df =
     (if df = [] then Stopped
      else
        (let df1 = map (\<lambda>r. r \<lparr> cur_Link := normalize_link rt (cur_Link r),
                                 cur_Sale_Price := fillna (cur_Sale_Price r),
                                 cur_Regular_Price := fillna (cur_Regular_Price r) \<rparr>) df;
             merged_rows =
               (if has_baseline prev_df then left_merge df1 (prev_prices rt prev_df)
                else map (\<lambda>r. \<lparr> current = r, Sale_Price_old = Str [],
                                 Regular_Price_old = Str [], Title_old = Str [] \<rparr>) df1);
             old_links = set (map prev_Link (prepare_prev rt prev_df))
         in Shown \<lparr> all_products = df1,
                    merged = merged_rows,
                    filtered_changes = filter (\<lambda>row. format_price_changes rt row \<noteq> []) merged_rows,
                    new_products_shown =
                      (if has_baseline prev_df
                       then filter (\<lambda>row. cur_Link (current row) \<notin> old_links) merged_rows
                       else merged_rows) \<rparr>))"

section \<open>Data to evaluate the comparisons with\<close>

text \<open>
  A runtime for the dashboard: ASCII lower-casing, and floats as natural numbers of
  hundredths. \<open>plain_float\<close> reads the strings made of digits with at most one dot that
  is followed by exactly two digits, as the canonical price strings without their sign
  are; every other string is refused.
\<close>

definition plain_float :: "pstr \<Rightarrow> nat option" where
  "plain_float s =
     (let whole = takeWhile (\<lambda>c. c \<noteq> dot) s; rest = dropWhile (\<lambda>c. c \<noteq> dot) s
      in if whole \<noteq> [] \<and> list_all (\<lambda>c. 48 \<le> c \<and> c \<le> 57) whole \<and>
            (rest = [] \<or> (length rest = 3 \<and> list_all (\<lambda>c. 48 \<le> c \<and> c \<le> 57) (tl rest)))
         then Some (hundredths s) else None)"

function digits_of :: "nat \<Rightarrow> pstr" where
  "digits_of n = (if n < 10 then [48 + n] else digits_of (n div 10) @ [48 + n mod 10])"
  by pat_completeness auto
termination
  by (relation "measure id") auto

definition plain_str :: "nat \<Rightarrow> pstr" where
  "plain_str v = digits_of (v div 100) @ [dot, 48 + (v mod 100) div 10, 48 + v mod 10]"

definition plain_dash :: "nat dash_runtime" where
  "plain_dash = \<lparr> lower = ascii_lower, to_float = plain_float, round2 = (\<lambda>v. v),
                  float_str = plain_str, float_differs = (\<lambda>v w. v \<noteq> w) \<rparr>"

text \<open>
  The product \<open>/p1\<close> at \<open>$10.00\<close> in the current snapshot, and two baselines that hold
  it at a sale price of \<open>$8.00\<close>: one with the three columns that the dashboard's own
  "save" button writes (line 181), and one that has a \<open>Title\<close> column as well.
\<close>

definition p1_current :: "'f cur_row" where
  "p1_current =
     \<lparr> cur_Title = Str (py ''Ring''), cur_SKU = Str (py ''p1''),
       cur_Sale_Price = Str (py ''$10.00''), cur_Regular_Price = Str (py ''$10.00''),
       cur_Availability = Str (py ''Available''), cur_Link = py ''/p1'' \<rparr>"

definition p1_before :: "'f prev_row" where
  "p1_before =
     \<lparr> prev_Link = py ''/p1'', prev_Sale_Price = Str (py ''$8.00''),
       prev_Regular_Price = Str (py ''$10.00''), prev_Title = Str (py ''Ring'') \<rparr>"

definition saved_baseline :: "'f prev_frame" where
  "saved_baseline =
     \<lparr> prev_columns = [''Link'', ''Sale_Price'', ''Regular_Price''], prev_rows = [p1_before] \<rparr>"

definition titled_baseline :: "'f prev_frame" where
  "titled_baseline =
     \<lparr> prev_columns = [''Link'', ''Sale_Price'', ''Regular_Price'', ''Title''],
       prev_rows = [p1_before] \<rparr>"


text \<open>
  For the crawler: the product \<open>https://nidhiratna.com/products/p1\<close> scraped at
  \<open>$5.00\<close>; a row of the previous file for the same link whose price fields are empty;
  and a row with the same prices whose link is written with \<open>P1/\<close> at its end.
\<close>

definition p1_scraped :: product where
  "p1_scraped =
     \<lparr> Title = py ''Ring'', SKU = py ''p1'', Sale_Price = py ''$5.00'',
       Regular_Price = py ''$5.00'', Availability = py ''Available'',
       Link = py ''https://nidhiratna.com/products/p1'',
       Date = py ''2025-01-01'' \<rparr>"

definition p1_unpriced :: "'f old_row" where
  "p1_unpriced =
     \<lparr> old_Link = py ''https://nidhiratna.com/products/p1'', old_Sale_Price = NaN,
       old_Regular_Price = NaN \<rparr>"

definition p1_other_spelling :: "'f old_row" where
  "p1_other_spelling =
     \<lparr> old_Link = py ''https://nidhiratna.com/products/P1/'',
       old_Sale_Price = Str (py ''$5.00''),
       old_Regular_Price = Str (py ''$5.00'') \<rparr>"

definition p1_spelled_before :: "'f prev_row" where
  "p1_spelled_before =
     \<lparr> prev_Link = py ''/P1/'', prev_Sale_Price = Str (py ''$8.00''),
       prev_Regular_Price = Str (py ''$10.00''), prev_Title = Str (py ''Ring'') \<rparr>"

section \<open>Proofs\<close>

lemma digit_not_space: "is_digit rt c \<Longrightarrow> \<not> is_space c"
  by (auto simp: is_digit_def is_space_def)

lemma digit_not_punct:
  "is_digit rt c \<Longrightarrow> c \<noteq> comma \<and> c \<noteq> dot \<and> \<not> is_currency c \<and> c \<noteq> 10 \<and> c \<noteq> 13"
  by (auto simp: is_digit_def comma_def dot_def is_currency_def dollar_def rupee_def)

lemma thousands_split:
  "thousands rt s = (g, r) \<Longrightarrow> s = g @ r \<and> (\<exists>gs. g = concat gs \<and> list_all (thousands_group rt) gs)"
proof (induction rt s arbitrary: g r rule: thousands.induct)
  case (1 rt c x y z s)
  show ?case
  proof (cases "c = comma \<and> is_digit rt x \<and> is_digit rt y \<and> is_digit rt z")
    case True
    obtain m r' where mr: "thousands rt s = (m, r')" by (cases "thousands rt s")
    with True 1(2) have g: "g = c # x # y # z # m" and r: "r = r'" by auto
    from 1(1)[OF True mr] obtain gs where s: "s = m @ r'" and gs: "m = concat gs" "list_all (thousands_group rt) gs"
      by auto
    have "g = concat ([comma, x, y, z] # gs)" using g gs True by simp
    moreover have "list_all (thousands_group rt) ([comma, x, y, z] # gs)"
      using gs True by (auto simp: thousands_group_def)
    ultimately show ?thesis using s g r by (metis append_Cons)
  next
    case False
    with 1(2) have "g = []" "r = c # x # y # z # s" by auto
    then show ?thesis by (auto intro: exI[of _ "[]"])
  qed
qed (auto intro: exI[of _ "[]"])

lemma fraction_split:
  "\<exists>rest. s = fraction rt s @ rest \<and> (fraction rt s = [] \<or> decimals rt (fraction rt s))"
  by (induction rt s rule: fraction.induct) (auto simp: decimals_def)

lemma match_number_Some:
  assumes "match_number rt s = Some m"
  obtains ds gs fr rest where "s = m @ rest" "m = ds @ concat gs @ fr" "ds \<noteq> []"
    "ds = takeWhile (is_digit rt) s" "list_all (thousands_group rt) gs" "fr = [] \<or> decimals rt fr"
proof -
  let ?ds = "takeWhile (is_digit rt) s"
  obtain g r where gr: "thousands rt (dropWhile (is_digit rt) s) = (g, r)"
    by (cases "thousands rt (dropWhile (is_digit rt) s)")
  from assms gr have ne: "?ds \<noteq> []" and m: "m = ?ds @ g @ fraction rt r"
    by (auto simp: match_number_def Let_def split: if_splits)
  from thousands_split[OF gr] obtain gs where d: "dropWhile (is_digit rt) s = g @ r"
    and gs: "g = concat gs" "list_all (thousands_group rt) gs" by auto
  from fraction_split[of r rt] obtain rest where r: "r = fraction rt r @ rest"
    and fr: "fraction rt r = [] \<or> decimals rt (fraction rt r)" by auto
  have "s = ?ds @ dropWhile (is_digit rt) s" by simp
  also have "\<dots> = ?ds @ g @ fraction rt r @ rest" using d r by simp
  finally have "s = m @ rest" using m by simp
  then show ?thesis using m ne gs fr that[of rest ?ds gs "fraction rt r"] by simp
qed

lemma match_number_None: "match_number rt s = None \<longleftrightarrow> (s = [] \<or> \<not> is_digit rt (hd s))"
  by (cases s) (auto simp: match_number_def Let_def split: prod.splits)

lemma match_number_SomeD: "match_number rt s = Some m \<Longrightarrow> s \<noteq> [] \<and> is_digit rt (hd s)"
  using match_number_None[of rt s] by auto

lemma list_all_takeWhile: "list_all P (takeWhile P xs)"
  by (induction xs) auto

lemma match_here_None:
  "match_here rt s = None \<longleftrightarrow>
     (s = [] \<or> (\<not> is_digit rt (hd s) \<and> (is_currency (hd s) \<longrightarrow> tl s = [] \<or> \<not> is_digit rt (hd (tl s)))))"
proof (cases s)
  case Nil
  then show ?thesis by (simp add: match_here_def)
next
  case (Cons c s')
  have "is_currency c \<Longrightarrow> \<not> is_digit rt c" using digit_not_punct by blast
  then show ?thesis using Cons
    by (cases s') (auto simp: match_here_def match_number_None split: option.splits dest: match_number_SomeD)
qed

lemma number_token:
  assumes "match_number rt s = Some m" and "cur = [] \<or> (\<exists>c. cur = [c] \<and> is_currency c)"
  shows "price_token rt (cur @ m) \<and> (\<exists>rest. s = m @ rest)"
proof -
  from assms(1) obtain ds gs fr rest where
    *: "s = m @ rest" "m = ds @ concat gs @ fr" "ds \<noteq> []" "ds = takeWhile (is_digit rt) s"
      "list_all (thousands_group rt) gs" "fr = [] \<or> decimals rt fr" by (rule match_number_Some)
  have "list_all (is_digit rt) ds" using *(4) list_all_takeWhile by simp
  with * assms(2) have "cur @ m = cur @ ds @ concat gs @ fr \<and>
        (cur = [] \<or> (\<exists>c. cur = [c] \<and> is_currency c)) \<and>
        ds \<noteq> [] \<and> list_all (is_digit rt) ds \<and>
        list_all (thousands_group rt) gs \<and>
        (fr = [] \<or> decimals rt fr)" by simp
  then have "price_token rt (cur @ m)"
    unfolding price_token_def by (intro exI)
  with *(1) show ?thesis by simp
qed

lemma match_here_Some:
  assumes "match_here rt s = Some m"
  shows "price_token rt m \<and> (\<exists>rest. s = m @ rest)"
proof (cases s)
  case Nil
  with assms show ?thesis by (simp add: match_here_def)
next
  case (Cons c s')
  show ?thesis
  proof (cases "is_currency c \<and> match_number rt s' \<noteq> None")
    case True
    then obtain m' where m': "match_number rt s' = Some m'" by auto
    with True assms Cons have m: "m = c # m'" by (simp add: match_here_def)
    from number_token[OF m', of "[c]"] True
    have "price_token rt ([c] @ m')" "\<exists>rest. s' = m' @ rest" by auto
    then show ?thesis using m Cons by auto
  next
    case False
    with assms Cons have "match_number rt s = Some m"
      by (cases "match_number rt s'") (auto simp: match_here_def split: if_splits)
    from number_token[OF this, of "[]"] show ?thesis by simp
  qed
qed

lemma re_search_None: "re_search rt s = None \<longleftrightarrow> (\<forall>c\<in>set s. \<not> is_digit rt c)"
proof (induction s)
  case Nil
  then show ?case by simp
next
  case (Cons c s)
  show ?case
  proof (cases "match_here rt (c # s)")
    case None
    then have "re_search rt (c # s) = re_search rt s" by simp
    moreover from None have "\<not> is_digit rt c" unfolding match_here_None by simp
    ultimately show ?thesis using Cons by simp
  next
    case (Some m)
    then have "match_here rt (c # s) \<noteq> None" by simp
    then have "is_digit rt c \<or> (s \<noteq> [] \<and> is_digit rt (hd s))"
      unfolding match_here_None by auto
    then have "\<exists>d\<in>set (c # s). is_digit rt d" by (cases s) auto
    then show ?thesis using Some by auto
  qed
qed

text \<open>A token occurrence at a position makes the pattern match there.\<close>
lemma token_matches:
  assumes "price_token rt m"
  shows "match_here rt (m @ post) \<noteq> None"
proof -
  from assms obtain cur ds gs fr where m: "m = cur @ ds @ concat gs @ fr"
    and cur: "cur = [] \<or> (\<exists>c. cur = [c] \<and> is_currency c)"
    and ds: "ds \<noteq> []" "list_all (is_digit rt) ds"
    unfolding price_token_def by blast
  from ds obtain d ds' where d: "ds = d # ds'" "is_digit rt d" by (cases ds) auto
  from cur show ?thesis
  proof
    assume "cur = []"
    then show ?thesis using m d by (simp add: match_here_None)
  next
    assume "\<exists>c. cur = [c] \<and> is_currency c"
    then show ?thesis using m d by (auto simp: match_here_None)
  qed
qed

lemma re_search_Some:
  "re_search rt s = Some m \<Longrightarrow>
     \<exists>pre post. s = pre @ m @ post \<and> match_here rt (m @ post) = Some m \<and>
        (\<forall>k < length pre. match_here rt (drop k s) = None)"
proof (induction s)
  case Nil
  then show ?case by simp
next
  case (Cons c s)
  show ?case
  proof (cases "match_here rt (c # s)")
    case (Some m')
    with Cons.prems have mm: "m' = m" by simp
    from match_here_Some[OF Some] mm obtain rest where "c # s = m @ rest" by blast
    with Some mm have "c # s = [] @ m @ rest \<and> match_here rt (m @ rest) = Some m \<and>
        (\<forall>k < length ([]::pstr). match_here rt (drop k (c # s)) = None)" by simp
    then show ?thesis by blast
  next
    case None
    with Cons.prems have "re_search rt s = Some m" by simp
    from Cons.IH[OF this] obtain pre post where
      s: "s = pre @ m @ post" and mh: "match_here rt (m @ post) = Some m"
      and first: "\<forall>k < length pre. match_here rt (drop k s) = None" by blast
    have "\<forall>k < length (c # pre). match_here rt (drop k (c # s)) = None"
    proof (intro allI impI)
      fix k assume "k < length (c # pre)"
      then show "match_here rt (drop k (c # s)) = None"
        using None first by (cases k) auto
    qed
    with s mh have "c # s = (c # pre) @ m @ post \<and> match_here rt (m @ post) = Some m \<and>
        (\<forall>k < length (c # pre). match_here rt (drop k (c # s)) = None)" by simp
    then show ?thesis by blast
  qed
qed


lemma filter_dropWhile_neg: "(\<And>x. Q x \<Longrightarrow> \<not> P x) \<Longrightarrow> filter P (dropWhile Q xs) = filter P xs"
  by (induction xs) auto

lemma visible_strip: "filter (\<lambda>c. \<not> is_space c) (strip s) = filter (\<lambda>c. \<not> is_space c) s"
  by (simp add: strip_def rev_filter[symmetric] filter_dropWhile_neg)

lemma is_space_space: "is_space space"
  by (simp add: is_space_def space_def)

lemma visible_collapse_ws: "filter (\<lambda>c. \<not> is_space c) (collapse_ws s) = filter (\<lambda>c. \<not> is_space c) s"
  by (induction s rule: collapse_ws.induct) (auto simp: filter_dropWhile_neg is_space_space)

lemma visible_clean_text: "filter (\<lambda>c. \<not> is_space c) (clean_text p) = filter (\<lambda>c. \<not> is_space c) p"
proof -
  have "filter (\<lambda>c. \<not> is_space c) (map (\<lambda>c. if c = 10 \<or> c = 13 then space else c) p)
      = filter (\<lambda>c. \<not> is_space c) p"
    by (induction p) (auto simp: is_space_def space_def)
  then show ?thesis by (simp add: clean_text_def visible_collapse_ws visible_strip)
qed

lemma digits_visible:
  "(\<exists>c\<in>set s. is_digit rt c) \<longleftrightarrow> (\<exists>c\<in>set (filter (\<lambda>c. \<not> is_space c) s). is_digit rt c)"
  using digit_not_space by auto

lemma digits_clean_text: "(\<exists>c\<in>set (clean_text p). is_digit rt c) \<longleftrightarrow> (\<exists>c\<in>set p. is_digit rt c)"
  by (subst digits_visible, subst (2) digits_visible) (simp only: visible_clean_text)

lemma collapse_ws_id: "(\<forall>c\<in>set s. \<not> is_space c) \<Longrightarrow> collapse_ws s = s"
  by (induction s) auto

lemma dropWhile_none: "(\<forall>x\<in>set xs. \<not> P x) \<Longrightarrow> dropWhile P xs = xs"
  by (cases xs) auto

lemma strip_id: "(\<forall>c\<in>set s. \<not> is_space c) \<Longrightarrow> strip s = s"
  by (simp add: strip_def dropWhile_none)

lemma clean_text_id: "(\<forall>c\<in>set s. \<not> is_space c) \<Longrightarrow> clean_text s = s"
proof -
  assume a: "\<forall>c\<in>set s. \<not> is_space c"
  have "is_space 10" "is_space 13" by (simp_all add: is_space_def)
  with a have "\<forall>c\<in>set s. c \<noteq> 10 \<and> c \<noteq> 13" by blast
  then have "map (\<lambda>c. if c = 10 \<or> c = 13 then space else c) s = s"
    by (induction s) auto
  with a show ?thesis by (simp add: clean_text_def strip_id collapse_ws_id)
qed


lemma currency_facts: "is_currency c \<Longrightarrow> c \<noteq> comma \<and> \<not> is_space c"
  by (auto simp: is_currency_def dollar_def rupee_def comma_def is_space_def)

lemma dot_facts: "dot \<noteq> comma \<and> \<not> is_space dot"
  by (auto simp: dot_def comma_def is_space_def)

lemma dot_not_digit: "\<not> is_digit rt dot"
  by (auto simp: dot_def is_digit_def)

lemma comma_not_digit: "\<not> is_digit rt comma"
  by (auto simp: comma_def is_digit_def)

lemma filter_digits: "list_all (is_digit rt) ds \<Longrightarrow> filter (\<lambda>c. c \<noteq> comma) ds = ds"
  by (induction ds) (auto dest: digit_not_punct)

lemma filter_groups:
  "list_all (thousands_group rt) gs \<Longrightarrow> list_all (is_digit rt) (filter (\<lambda>c. c \<noteq> comma) (concat gs))"
  by (induction gs) (auto simp: thousands_group_def dest: digit_not_punct)

lemma filter_decimals: "fr = [] \<or> decimals rt fr \<Longrightarrow> filter (\<lambda>c. c \<noteq> comma) fr = fr"
  using dot_facts by (auto simp: decimals_def dest: digit_not_punct)

lemma filter_currency:
  "cur = [] \<or> (\<exists>c. cur = [c] \<and> is_currency c) \<Longrightarrow> filter (\<lambda>c. c \<noteq> comma) cur = cur"
  by (auto dest: currency_facts)

lemma token_canonical:
  assumes "price_token rt m"
  shows "canonical_price rt (filter (\<lambda>c. c \<noteq> comma) m)"
proof -
  from assms obtain cur ds gs fr where m: "m = cur @ ds @ concat gs @ fr"
    and cur: "cur = [] \<or> (\<exists>c. cur = [c] \<and> is_currency c)"
    and ds: "ds \<noteq> []" "list_all (is_digit rt) ds"
    and gs: "list_all (thousands_group rt) gs"
    and fr: "fr = [] \<or> decimals rt fr"
    unfolding price_token_def by (elim exE conjE)
  let ?ds = "ds @ filter (\<lambda>c. c \<noteq> comma) (concat gs)"
  have "filter (\<lambda>c. c \<noteq> comma) m = cur @ ?ds @ fr"
    using m filter_currency[OF cur] filter_digits[OF ds(2)] filter_decimals[OF fr] by simp
  moreover have "?ds \<noteq> []" using ds by simp
  moreover have "list_all (is_digit rt) ?ds" using ds filter_groups[OF gs] by simp
  ultimately have "filter (\<lambda>c. c \<noteq> comma) m = cur @ ?ds @ fr \<and>
        (cur = [] \<or> (\<exists>c. cur = [c] \<and> is_currency c)) \<and>
        ?ds \<noteq> [] \<and> list_all (is_digit rt) ?ds \<and> (fr = [] \<or> decimals rt fr)"
    using cur fr by simp
  then show ?thesis unfolding canonical_price_def by (intro exI)
qed

lemma takeWhile_digits:
  "list_all (is_digit rt) ds \<Longrightarrow> fr = [] \<or> decimals rt fr \<Longrightarrow>
     takeWhile (is_digit rt) (ds @ fr) = ds \<and> dropWhile (is_digit rt) (ds @ fr) = fr"
  using dot_not_digit[of rt] by (induction ds) (auto simp: decimals_def)

lemma match_number_canonical:
  assumes "ds \<noteq> []" "list_all (is_digit rt) ds" "fr = [] \<or> decimals rt fr"
  shows "match_number rt (ds @ fr) = Some (ds @ fr)"
proof -
  have "thousands rt fr = ([], fr)" using assms(3) by (auto simp: decimals_def)
  moreover have "fraction rt fr = fr" using assms(3) by (auto simp: decimals_def)
  ultimately show ?thesis
    using assms(1) takeWhile_digits[OF assms(2,3)] by (simp add: match_number_def)
qed

lemma canonical_match:
  assumes "canonical_price rt r"
  shows "match_here rt r = Some r"
proof -
  from assms obtain cur ds fr where r: "r = cur @ ds @ fr"
    and cur: "cur = [] \<or> (\<exists>c. cur = [c] \<and> is_currency c)"
    and ds: "ds \<noteq> []" "list_all (is_digit rt) ds"
    and fr: "fr = [] \<or> decimals rt fr"
    unfolding canonical_price_def by (elim exE conjE)
  note mn = match_number_canonical[OF ds fr]
  from ds obtain d ds' where d: "ds = d # ds'" "is_digit rt d" by (cases ds) auto
  from cur show ?thesis
  proof
    assume "cur = []"
    moreover have "\<not> is_currency d" using d digit_not_punct by blast
    ultimately show ?thesis using r mn d by (simp add: match_here_def)
  next
    assume "\<exists>c. cur = [c] \<and> is_currency c"
    then obtain c where "cur = [c]" "is_currency c" by blast
    then show ?thesis using r mn by (simp add: match_here_def)
  qed
qed

lemma canonical_chars:
  assumes "canonical_price rt r"
  shows "r \<noteq> [] \<and> (\<forall>c\<in>set r. \<not> is_space c \<and> c \<noteq> comma)"
proof -
  from assms obtain cur ds fr where r: "r = cur @ ds @ fr"
    and cur: "cur = [] \<or> (\<exists>c. cur = [c] \<and> is_currency c)"
    and ds: "ds \<noteq> []" "list_all (is_digit rt) ds"
    and fr: "fr = [] \<or> decimals rt fr"
    unfolding canonical_price_def by (elim exE conjE)
  have "\<forall>c\<in>set cur. \<not> is_space c \<and> c \<noteq> comma" using cur currency_facts by fastforce
  moreover have "\<forall>c\<in>set ds. \<not> is_space c \<and> c \<noteq> comma"
    using ds(2) digit_not_space[of rt] comma_not_digit[of rt] by (auto simp: list_all_iff)
  moreover have "\<forall>c\<in>set fr. \<not> is_space c \<and> c \<noteq> comma"
    using fr dot_facts digit_not_space[of rt] comma_not_digit[of rt] by (auto simp: decimals_def)
  ultimately show ?thesis using r ds(1) by auto
qed

lemma canonical_normalize:
  assumes "canonical_price rt r"
  shows "normalize_price rt (PyStr r) = r"
proof -
  from canonical_chars[OF assms] have ne: "r \<noteq> []" and ch: "\<forall>c\<in>set r. \<not> is_space c \<and> c \<noteq> comma"
    by auto
  then have "clean_text r = r" by (simp add: clean_text_id)
  moreover have "re_search rt r = Some r" using ne canonical_match[OF assms] by (cases r) auto
  moreover have "filter (\<lambda>c. c \<noteq> comma) r = r" using ch by (simp add: filter_id_conv)
  ultimately show ?thesis by (simp add: normalize_price_def)
qed

lemma normalize_price_cases:
  "normalize_price rt x = [] \<or> canonical_price rt (normalize_price rt x)"
proof (cases x)
  case PyOther
  then show ?thesis by (simp add: normalize_price_def)
next
  case (PyStr p)
  show ?thesis
  proof (cases "re_search rt (clean_text p)")
    case None
    with PyStr show ?thesis by (simp add: normalize_price_def)
  next
    case (Some m)
    from re_search_Some[OF Some] obtain pre post where "match_here rt (m @ post) = Some m" by blast
    then have "price_token rt m" using match_here_Some by blast
    then show ?thesis using PyStr Some token_canonical[of rt m] by (simp add: normalize_price_def)
  qed
qed

lemma normalize_price_empty: "normalize_price rt (PyStr []) = []"
  by (simp add: normalize_price_def clean_text_def strip_def)

lemma is_digit_ascii: "c < 128 \<Longrightarrow> is_digit rt c \<longleftrightarrow> 48 \<le> c \<and> c \<le> 57"
  by (auto simp: is_digit_def)

lemmas eval_simps = py_def strip_def clean_text_def is_space_def space_def match_here_def 
  match_number_def is_currency_def dollar_def rupee_def is_digit_ascii comma_def dot_def

lemma normalize_price_example1: "normalize_price rt (PyStr (py ''$1,234.50'')) = py ''$1234.50''"
  by (simp add: normalize_price_def eval_simps)

lemma normalize_price_example2: "normalize_price rt (PyStr (py ''no price here'')) = []"
  by (simp add: normalize_price_def eval_simps)

lemma thousands_groups:
  "list_all (thousands_group rt) gs \<Longrightarrow>
     thousands rt (concat gs @ u) = (concat gs @ fst (thousands rt u), snd (thousands rt u))"
proof (induction gs)
  case Nil
  then show ?case by simp
next
  case (Cons g gs)
  then obtain x y z where g: "g = [comma, x, y, z]" "is_digit rt x" "is_digit rt y" "is_digit rt z"
    by (auto simp: thousands_group_def)
  from Cons have "thousands rt (concat gs @ u) = (concat gs @ fst (thousands rt u), snd (thousands rt u))"
    by simp
  then show ?case using g by simp
qed

lemma thousands_at_dot: "thousands rt (dot # u) = ([], dot # u)"
proof -
  have "dot \<noteq> comma" by (simp add: dot_def comma_def)
  then show ?thesis by (cases "(rt, dot # u)" rule: thousands.cases) auto
qed

lemma fraction_at_decimals: "decimals rt fr \<Longrightarrow> fraction rt (fr @ u) = fr"
  by (auto simp: decimals_def)

lemma groups_start:
  "list_all (thousands_group rt) gs \<Longrightarrow> concat gs = [] \<or> hd (concat gs) = comma"
  by (cases gs) (auto simp: thousands_group_def)

text \<open>The number the pattern matches at the head of a string is the longest one there.\<close>
lemma match_number_longest:
  assumes "t = ds' @ concat gs' @ fr' @ post'" "ds' \<noteq> []" "list_all (is_digit rt) ds'"
    "list_all (thousands_group rt) gs'" "fr' = [] \<or> decimals rt fr'"
  shows "\<exists>n. match_number rt t = Some n \<and> length (ds' @ concat gs' @ fr') \<le> length n"
proof -
  let ?rest = "concat gs' @ fr' @ post'"
  let ?e = "takeWhile (is_digit rt) ?rest"
  have tw: "takeWhile (is_digit rt) t = ds' @ ?e"
    using assms(1,3) by (simp add: takeWhile_append2 list_all_iff)
  have dw: "dropWhile (is_digit rt) t = dropWhile (is_digit rt) ?rest"
    using assms(1,3) by (simp add: dropWhile_append2 list_all_iff)
  obtain g r where gr: "thousands rt (dropWhile (is_digit rt) t) = (g, r)"
    by (cases "thousands rt (dropWhile (is_digit rt) t)")
  have mn: "match_number rt t = Some (ds' @ ?e @ g @ fraction rt r)"
    using tw gr assms(2) by (simp add: match_number_def)
  show ?thesis
  proof (cases "?e = []")
    case False
    then have d: "?rest \<noteq> []" "is_digit rt (hd ?rest)"
      by (auto simp: takeWhile_eq_Nil_iff)
    have cg: "concat gs' = []"
    proof (rule ccontr)
      assume ne: "concat gs' \<noteq> []"
      with groups_start[OF assms(4)] have "hd (concat gs') = comma" by blast
      with ne have "hd ?rest = comma" using hd_append2[OF ne, of "fr' @ post'"] by simp
      with d(2) comma_not_digit[of rt] show False by simp
    qed
    have "fr' = []"
    proof (rule ccontr)
      assume ne: "fr' \<noteq> []"
      with assms(5) have "hd fr' = dot" by (auto simp: decimals_def)
      then have "hd (fr' @ post') = dot" using hd_append2[OF ne, of post'] by simp
      then have "hd ?rest = dot" unfolding cg append_Nil .
      with d(2) dot_not_digit[of rt] show False by simp
    qed
    with cg have eq: "ds' @ concat gs' @ fr' = ds'" by (simp only: append_Nil2)
    show ?thesis unfolding eq using mn by simp
  next
    case True
    then have dwr: "dropWhile (is_digit rt) ?rest = ?rest"
      by (metis takeWhile_dropWhile_id append_Nil)
    from thousands_groups[OF assms(4), of "fr' @ post'"] gr dw dwr
    have g: "g = concat gs' @ fst (thousands rt (fr' @ post'))"
      and r: "r = snd (thousands rt (fr' @ post'))" by simp_all
    show ?thesis
    proof (cases "fr' = []")
      case True
      then show ?thesis using mn g by simp
    next
      case False
      with assms(5) have dec: "decimals rt fr'" by simp
      then obtain x y where fr: "fr' = [dot, x, y]" by (auto simp: decimals_def)
      have "thousands rt (fr' @ post') = ([], fr' @ post')"
        using thousands_at_dot[of rt "x # y # post'"] fr by simp
      with g r have "g = concat gs'" "r = fr' @ post'" by simp_all
      then show ?thesis using mn fraction_at_decimals[OF dec, of post'] by simp
    qed
  qed
qed

lemma match_here_longest:
  assumes "price_token rt m'" "s = m' @ post'"
  shows "\<exists>m. match_here rt s = Some m \<and> length m' \<le> length m"
proof -
  from assms(1) obtain cur ds gs fr where m': "m' = cur @ ds @ concat gs @ fr"
    and cur: "cur = [] \<or> (\<exists>c. cur = [c] \<and> is_currency c)"
    and ds: "ds \<noteq> []" "list_all (is_digit rt) ds"
    and gs: "list_all (thousands_group rt) gs"
    and fr: "fr = [] \<or> decimals rt fr"
    unfolding price_token_def by (elim exE conjE)
  let ?t = "ds @ concat gs @ fr @ post'"
  from match_number_longest[OF refl ds gs fr, of post'] obtain n where
    n: "match_number rt ?t = Some n" "length (ds @ concat gs @ fr) \<le> length n" by blast
  from ds obtain d ds0 where d: "ds = d # ds0" "is_digit rt d" by (cases ds) auto
  have nd: "\<not> is_currency d" using d(2) digit_not_punct[of rt d] by simp
  from cur show ?thesis
  proof
    assume "cur = []"
    then have "s = ?t" using assms(2) m' by simp
    then have "match_here rt s = Some n" using n(1) d nd by (simp add: match_here_def)
    then show ?thesis using n(2) m' \<open>cur = []\<close> by simp
  next
    assume "\<exists>c. cur = [c] \<and> is_currency c"
    then obtain c where c: "cur = [c]" "is_currency c" by blast
    then have "s = c # ?t" using assms(2) m' by simp
    then have "match_here rt s = Some (c # n)" using n(1) c(2) by (simp add: match_here_def)
    then show ?thesis using n(2) m' c(1) by simp
  qed
qed

text \<open>
  C7. \<open>normalize("$1,234.50") = "$1234.50"\<close> and \<open>normalize("no price here") = ""\<close>. In
  general: a value that is not a string gives the empty string, and so does a string whose
  cleaned text has no occurrence of the pattern, which is the case exactly when the string
  has no digit; a string with a digit gives the first occurrence of the pattern in the
  cleaned text (no occurrence starts further left, and none that starts at the same place
  is longer), with its commas removed.
\<close>

theorem normalize_price_first_match:
  "normalize_price rt (PyStr (py ''$1,234.50'')) = py ''$1234.50'' \<and>
   normalize_price rt (PyStr (py ''no price here'')) = [] \<and>
   normalize_price rt PyOther = [] \<and>
   ((\<forall>c\<in>set p. \<not> is_digit rt c) \<longrightarrow> normalize_price rt (PyStr p) = []) \<and>
   ((\<forall>pre m post. clean_text p = pre @ m @ post \<longrightarrow> \<not> price_token rt m) \<longrightarrow>
      normalize_price rt (PyStr p) = []) \<and>
   ((\<exists>c\<in>set p. is_digit rt c) \<longrightarrow>
      (\<exists>pre m post. clean_text p = pre @ m @ post \<and> price_token rt m \<and>
         (\<forall>pre' m' post'. clean_text p = pre' @ m' @ post' \<and> price_token rt m'
             \<longrightarrow> length pre \<le> length pre') \<and>
         (\<forall>m' post'. m @ post = m' @ post' \<and> price_token rt m'
             \<longrightarrow> length m' \<le> length m) \<and>
         normalize_price rt (PyStr p) = filter (\<lambda>c. c \<noteq> comma) m))"
proof (intro conjI impI)
  show "normalize_price rt (PyStr (py ''$1,234.50'')) = py ''$1234.50''"
    by (rule normalize_price_example1)
  show "normalize_price rt (PyStr (py ''no price here'')) = []"
    by (rule normalize_price_example2)
  show "normalize_price rt PyOther = []" by (simp add: normalize_price_def)
next
  assume "\<forall>c\<in>set p. \<not> is_digit rt c"
  then have "\<not> (\<exists>c\<in>set (clean_text p). is_digit rt c)" unfolding digits_clean_text by simp
  then have "re_search rt (clean_text p) = None" by (simp add: re_search_None)
  then show "normalize_price rt (PyStr p) = []" by (simp add: normalize_price_def)
next
  assume none: "\<forall>pre m post. clean_text p = pre @ m @ post \<longrightarrow> \<not> price_token rt m"
  have "re_search rt (clean_text p) = None"
  proof (rule ccontr)
    assume "re_search rt (clean_text p) \<noteq> None"
    then obtain m where m: "re_search rt (clean_text p) = Some m" by auto
    from re_search_Some[OF m] obtain pre post where
      "clean_text p = pre @ m @ post" "match_here rt (m @ post) = Some m" by blast
    with match_here_Some[of rt "m @ post" m] none show False by blast
  qed
  then show "normalize_price rt (PyStr p) = []" by (simp add: normalize_price_def)
next
  assume "\<exists>c\<in>set p. is_digit rt c"
  then have "\<exists>c\<in>set (clean_text p). is_digit rt c" unfolding digits_clean_text .
  then have "re_search rt (clean_text p) \<noteq> None" by (simp add: re_search_None)
  then obtain m where m: "re_search rt (clean_text p) = Some m" by auto
  from re_search_Some[OF m] obtain pre post where
    s: "clean_text p = pre @ m @ post" and mh: "match_here rt (m @ post) = Some m"
    and first: "\<forall>k < length pre. match_here rt (drop k (clean_text p)) = None" by blast
  have tok: "price_token rt m" using match_here_Some[OF mh] by simp
  have leftmost: "\<forall>pre' m' post'. clean_text p = pre' @ m' @ post' \<and> price_token rt m'
             \<longrightarrow> length pre \<le> length pre'"
  proof (intro allI impI)
    fix pre' m' post'
    assume a: "clean_text p = pre' @ m' @ post' \<and> price_token rt m'"
    then have "drop (length pre') (clean_text p) = m' @ post'" by simp
    with a token_matches[of rt m' post'] have "match_here rt (drop (length pre') (clean_text p)) \<noteq> None"
      by simp
    with first show "length pre \<le> length pre'" by (meson not_le_imp_less)
  qed
  have longest: "\<forall>m' post'. m @ post = m' @ post' \<and> price_token rt m' \<longrightarrow> length m' \<le> length m"
  proof (intro allI impI)
    fix m' post'
    assume a: "m @ post = m' @ post' \<and> price_token rt m'"
    with match_here_longest[of rt m' "m @ post" post'] mh
    show "length m' \<le> length m" by auto
  qed
  have "normalize_price rt (PyStr p) = filter (\<lambda>c. c \<noteq> comma) m"
    using m by (simp add: normalize_price_def)
  with s tok leftmost longest
  show "\<exists>pre m post. clean_text p = pre @ m @ post \<and> price_token rt m \<and>
         (\<forall>pre' m' post'. clean_text p = pre' @ m' @ post' \<and> price_token rt m'
             \<longrightarrow> length pre \<le> length pre') \<and>
         (\<forall>m' post'. m @ post = m' @ post' \<and> price_token rt m'
             \<longrightarrow> length m' \<le> length m) \<and>
         normalize_price rt (PyStr p) = filter (\<lambda>c. c \<noteq> comma) m"
    by blast
qed

theorem normalize_price_first_match_witness:
  "(\<exists>c\<in>set (py ''was $1,234.50 now''). is_digit ascii_rt c) \<and>
   (\<exists>pre m post. clean_text (py ''was $1,234.50 now'') = pre @ m @ post \<and>
      price_token ascii_rt m \<and>
      normalize_price ascii_rt (PyStr (py ''was $1,234.50 now'')) = filter (\<lambda>c. c \<noteq> comma) m) \<and>
   normalize_price ascii_rt (PyStr (py ''was $1,234.50 now'')) = py ''$1234.50''"
proof -
  have h: "\<exists>c\<in>set (py ''was $1,234.50 now''). is_digit ascii_rt c"
    by (simp add: py_def is_digit_ascii)
  have e: "normalize_price ascii_rt (PyStr (py ''was $1,234.50 now'')) = py ''$1234.50''"
    by (simp add: normalize_price_def eval_simps)
  from normalize_price_first_match[of ascii_rt "py ''was $1,234.50 now''"] h
  have "\<exists>pre m post. clean_text (py ''was $1,234.50 now'') = pre @ m @ post \<and>
      price_token ascii_rt m \<and>
      (\<forall>pre' m' post'. clean_text (py ''was $1,234.50 now'') = pre' @ m' @ post' \<and>
           price_token ascii_rt m' \<longrightarrow> length pre \<le> length pre') \<and>
      (\<forall>m' post'. m @ post = m' @ post' \<and> price_token ascii_rt m'
           \<longrightarrow> length m' \<le> length m) \<and>
      normalize_price ascii_rt (PyStr (py ''was $1,234.50 now'')) = filter (\<lambda>c. c \<noteq> comma) m"
    by blast
  then have "\<exists>pre m post. clean_text (py ''was $1,234.50 now'') = pre @ m @ post \<and>
      price_token ascii_rt m \<and>
      normalize_price ascii_rt (PyStr (py ''was $1,234.50 now'')) = filter (\<lambda>c. c \<noteq> comma) m"
    by blast
  with h e show ?thesis by blast
qed

text \<open>
  C6. Price normalization is idempotent: normalizing the result of a normalization gives
  the same string, for every argument (a string or not) and every digit table.
\<close>

theorem normalize_price_idempotent:
  "normalize_price rt (PyStr (normalize_price rt x)) = normalize_price rt x"
  using normalize_price_cases[of rt x] canonical_normalize[of rt] normalize_price_empty[of rt]
  by auto

lemma fromkeys_filter:
  "fromkeys keys xs = keys @ filter (\<lambda>y. y \<notin> set keys) (fromkeys [] xs)"
proof (induction xs arbitrary: keys)
  case Nil
  then show ?case by simp
next
  case (Cons x xs)
  have one: "fromkeys [x] xs = [x] @ filter (\<lambda>y. y \<notin> set [x]) (fromkeys [] xs)"
    by (rule Cons.IH)
  show ?case
  proof (cases "x \<in> set keys")
    case True
    have "filter (\<lambda>y. y \<notin> set keys) (filter (\<lambda>y. y \<noteq> x) (fromkeys [] xs))
        = filter (\<lambda>y. y \<notin> set keys) (fromkeys [] xs)"
      using True by (auto intro: filter_cong)
    with True show ?thesis using Cons.IH[of keys] one by simp
  next
    case False
    have "filter (\<lambda>y. y \<notin> set (keys @ [x])) (fromkeys [] xs)
        = filter (\<lambda>y. y \<notin> set keys) (filter (\<lambda>y. y \<noteq> x) (fromkeys [] xs))"
      by (auto intro: filter_cong)
    with False show ?thesis using Cons.IH[of "keys @ [x]"] one by simp
  qed
qed

lemma ordered_unique_Nil: "ordered_unique [] = []"
  by (simp add: ordered_unique_def)

lemma ordered_unique_Cons:
  "ordered_unique (x # xs) = x # filter (\<lambda>y. y \<noteq> x) (ordered_unique xs)"
  using fromkeys_filter[of "[x]" xs] by (simp add: ordered_unique_def)

lemma set_ordered_unique: "set (ordered_unique xs) = set xs"
  by (induction xs) (auto simp: ordered_unique_Nil ordered_unique_Cons)

lemma distinct_ordered_unique: "distinct (ordered_unique xs)"
  by (induction xs) (auto simp: ordered_unique_Nil ordered_unique_Cons)

lemma first_seen_Cons:
  "first_seen (x # xs) a = (if a = x then 0 else Suc (first_seen xs a))"
  by (simp add: first_seen_def)

lemma first_seen_order: "sorted_wrt (\<lambda>a b. first_seen xs a < first_seen xs b) (ordered_unique xs)"
proof (induction xs)
  case Nil
  then show ?case by (simp add: ordered_unique_Nil)
next
  case (Cons x xs)
  let ?tl = "filter (\<lambda>y. y \<noteq> x) (ordered_unique xs)"
  have "sorted_wrt (\<lambda>a b. first_seen xs a < first_seen xs b) ?tl"
    using Cons.IH by (rule sorted_wrt_filter)
  then have "sorted_wrt (\<lambda>a b. first_seen (x # xs) a < first_seen (x # xs) b) ?tl"
    by (rule sorted_wrt_mono_rel[rotated]) (auto simp: first_seen_Cons)
  moreover have "\<forall>b\<in>set ?tl. first_seen (x # xs) x < first_seen (x # xs) b"
    by (auto simp: first_seen_Cons)
  ultimately show ?case by (simp add: ordered_unique_Cons)
qed

lemma fetch_product_urls_concat:
  "fetch_product_urls http acc sitemaps = acc @ concat (map (urls_of_sitemap http) sitemaps)"
  by (induction sitemaps arbitrary: acc) (auto simp: urls_of_sitemap_def split: option.splits)

text \<open>
  C8. The discovered product URLs are the URLs of the fetched product sitemaps,
  concatenated in discovery order, with duplicates removed: the result has no duplicate,
  has exactly the URLs of the input, and lists them in the order in which they are first
  seen. URLs \<open>[A, B, A, C]\<close> give \<open>[A, B, C]\<close>.
\<close>

theorem discovery_keeps_first_occurrence:
  "distinct (ordered_unique xs) \<and> set (ordered_unique xs) = set xs \<and>
   sorted_wrt (\<lambda>a b. first_seen xs a < first_seen xs b) (ordered_unique xs) \<and>
   (A \<noteq> B \<and> A \<noteq> C \<and> B \<noteq> C \<longrightarrow> ordered_unique [A, B, A, C] = [A, B, C]) \<and>
   (requests_get_with_retry http MAIN_SITEMAP_URL = Some r \<longrightarrow>
      discover http =
        Some (ordered_unique (concat (map (urls_of_sitemap http) (sitemap_urls_of r)))))"
  by (auto simp: distinct_ordered_unique set_ordered_unique first_seen_order
      ordered_unique_Cons ordered_unique_Nil discover_def fetch_product_urls_concat)

lemma upt_retries: "[1..<MAX_RETRIES + 1] = [1, 2, 3]"
  by (simp add: MAX_RETRIES_def upt_rec)

lemma requests_get_with_retry_unfold:
  "requests_get_with_retry http url =
     (case http url 1 of Some r \<Rightarrow> Some r
      | None \<Rightarrow> (case http url 2 of Some r \<Rightarrow> Some r
                 | None \<Rightarrow> http url 3))"
  unfolding requests_get_with_retry_def upt_retries
  by (simp add: MAX_RETRIES_def split: option.splits)

lemma sample_master_fetch: "requests_get_with_retry sample_http MAIN_SITEMAP_URL = Some sample_master"
  by (simp add: requests_get_with_retry_unfold sample_http_def)

theorem discovery_keeps_first_occurrence_witness:
  "requests_get_with_retry sample_http MAIN_SITEMAP_URL = Some sample_master \<and>
   discover sample_http = Some [py ''/products/a'', py ''/products/b'', py ''/products/c''] \<and>
   py ''A'' \<noteq> py ''B'' \<and> py ''A'' \<noteq> py ''C'' \<and> py ''B'' \<noteq> py ''C'' \<and>
   ordered_unique [py ''A'', py ''B'', py ''A'', py ''C''] = [py ''A'', py ''B'', py ''C'']"
proof -
  have d: "py ''A'' \<noteq> py ''B'' \<and> py ''A'' \<noteq> py ''C'' \<and> py ''B'' \<noteq> py ''C''"
    by (simp add: py_def)
  have s: "sitemap_urls_of sample_master = [py ''/sitemap_products_1.xml'']"
    by (simp add: sitemap_urls_of_def sample_master_def py_def strip_def is_space_def)
  have u: "urls_of_sitemap sample_http (py ''/sitemap_products_1.xml'')
      = [py ''/products/a'', py ''/products/b'', py ''/products/a'', py ''/products/c'']"
    by (simp add: urls_of_sitemap_def requests_get_with_retry_unfold sample_http_def
        MAIN_SITEMAP_URL_def sample_sitemap_def py_def)
  have o: "ordered_unique [py ''/products/a'', py ''/products/b'', py ''/products/a'', py ''/products/c'']
      = [py ''/products/a'', py ''/products/b'', py ''/products/c'']"
    by (simp add: ordered_unique_def py_def)
  note t = discovery_keeps_first_occurrence[of "[]" "py ''A''" "py ''B''" "py ''C''" sample_http sample_master]
  from t d have "ordered_unique [py ''A'', py ''B'', py ''A'', py ''C''] = [py ''A'', py ''B'', py ''C'']"
    by blast
  moreover from t sample_master_fetch
  have "discover sample_http =
        Some (ordered_unique (concat (map (urls_of_sitemap sample_http) (sitemap_urls_of sample_master))))"
    by blast
  then have "discover sample_http = Some [py ''/products/a'', py ''/products/b'', py ''/products/c'']"
    by (simp add: s u o)
  ultimately show ?thesis using sample_master_fetch d by blast
qed

lemma sorted_prices_set:
  "iterates_sets rt \<Longrightarrow> set (sorted_prices rt c) = set (prices_found rt c)"
proof -
  assume "iterates_sets rt"
  then have "mset (set_order rt (ordered_unique (prices_found rt c))) = mset (ordered_unique (prices_found rt c))"
    by (simp add: iterates_sets_def)
  then have "set (set_order rt (ordered_unique (prices_found rt c))) = set (ordered_unique (prices_found rt c))"
    by (rule mset_eq_setD)
  then show ?thesis by (simp add: sorted_prices_def set_ordered_unique)
qed

lemma sorted_prices_distinct: "iterates_sets rt \<Longrightarrow> distinct (sorted_prices rt c)"
proof -
  assume "iterates_sets rt"
  then have "mset (set_order rt (ordered_unique (prices_found rt c))) = mset (ordered_unique (prices_found rt c))"
    by (simp add: iterates_sets_def)
  then have "distinct (set_order rt (ordered_unique (prices_found rt c)))"
    using distinct_ordered_unique mset_eq_imp_distinct_iff by blast
  then show ?thesis by (simp add: sorted_prices_def)
qed

lemma sorted_prices_sorted: "sorted (map (price_key rt) (sorted_prices rt c))"
  by (simp add: sorted_prices_def)

lemma sorted_hd_last:
  assumes "sorted (map f xs)" "x \<in> set xs"
  shows "f (hd xs) \<le> f x \<and> f x \<le> f (last xs)"
proof -
  from assms(2) obtain i where i: "i < length xs" "xs ! i = x" by (auto simp: in_set_conv_nth)
  then have ne: "xs \<noteq> []" by auto
  have "map f xs ! 0 \<le> map f xs ! i" using assms(1) i by (intro sorted_nth_mono) auto
  moreover have "map f xs ! i \<le> map f xs ! (length xs - 1)"
    using assms(1) i by (intro sorted_nth_mono) auto
  ultimately show ?thesis using i ne by (simp add: hd_conv_nth last_conv_nth)
qed

lemma prices_found_nonempty: "p \<in> set (prices_found rt c) \<Longrightarrow> p \<noteq> []"
  by (auto simp: prices_found_def)

lemma scan_skip:
  assumes "sorted_prices rt c = []"
  shows "scan_containers rt (None, None) (c # cs) = scan_containers rt (None, None) cs"
  using assms by (simp add: truthy_def)

lemma scan_hit:
  assumes "sorted_prices rt c \<noteq> []" "\<forall>p\<in>set (sorted_prices rt c). p \<noteq> []"
  shows "scan_containers rt st (c # cs) = (Some (hd (sorted_prices rt c)), Some (last (sorted_prices rt c)))"
proof -
  let ?f = "sorted_prices rt c"
  obtain a b where st: "st = (a, b)" by (cases st)
  have hd: "hd ?f \<noteq> []" and lst: "last ?f \<noteq> []" using assms by auto
  have one: "length ?f = 1 \<Longrightarrow> last ?f = hd ?f" by (cases ?f) auto
  have "length ?f = 1 \<or> length ?f \<ge> 2" using assms(1) by (cases ?f) (auto simp: Suc_le_eq)
  then show ?thesis using hd lst one unfolding st by (auto simp: truthy_def Let_def)
qed

declare scan_containers.simps(2) [simp del]

lemma scan_prefix:
  assumes "\<forall>c\<in>set pre. sorted_prices rt c = []"
  shows "scan_containers rt (None, None) (pre @ cs) = scan_containers rt (None, None) cs"
  using assms by (induction pre) (simp_all add: scan_skip)

lemma scan_none:
  assumes "\<forall>c\<in>set cs. sorted_prices rt c = []"
  shows "scan_containers rt (None, None) cs = (None, None)"
  using scan_prefix[OF assms, of "[]"] by simp

lemma sorted_prices_empty: "iterates_sets rt \<Longrightarrow> sorted_prices rt c = [] \<longleftrightarrow> prices_found rt c = []"
  using sorted_prices_set[of rt c] by (metis set_empty)

lemma scrape_first_container:
  assumes "iterates_sets rt" "price_containers page = pre @ c # post"
    "\<forall>c'\<in>set pre. prices_found rt c' = []" "prices_found rt c \<noteq> []"
  shows "scrape_prices rt page = (hd (sorted_prices rt c), last (sorted_prices rt c))"
proof -
  have pre: "\<forall>c'\<in>set pre. sorted_prices rt c' = []"
    using assms(1,3) sorted_prices_empty by blast
  have ne: "sorted_prices rt c \<noteq> []" using assms(1,4) sorted_prices_empty by blast
  have "\<forall>p\<in>set (sorted_prices rt c). p \<noteq> []"
    using sorted_prices_set[OF assms(1)] prices_found_nonempty by blast
  from scan_hit[OF ne this, of "(None, None)" post] scan_prefix[OF pre, of "c # post"]
  show ?thesis by (simp add: scrape_prices_def assms(2) or_empty_def)
qed


lemma prices_found_canonical: "p \<in> set (prices_found rt c) \<Longrightarrow> canonical_price rt p"
  using normalize_price_cases[of rt] by (auto simp: prices_found_def)

lemma prices_found_set:
  "set (prices_found rt c) = {normalize_price rt (PyStr t) | t. t \<in> set c} - {[], py ''$0.00''}"
  by (auto simp: prices_found_def)

lemma scrape_extremes:
  assumes "iterates_sets rt" "price_containers page = pre @ c # post"
    "\<forall>c'\<in>set pre. prices_found rt c' = []" "prices_found rt c \<noteq> []"
  shows "\<exists>s r. scrape_prices rt page = (s, r) \<and>
           s \<in> set (prices_found rt c) \<and> r \<in> set (prices_found rt c) \<and>
           (\<forall>p\<in>set (prices_found rt c). price_key rt s \<le> price_key rt p \<and> price_key rt p \<le> price_key rt r) \<and>
           (\<forall>p. set (prices_found rt c) = {p} \<longrightarrow> s = p \<and> r = p)"
proof -
  let ?f = "sorted_prices rt c"
  have eq: "scrape_prices rt page = (hd ?f, last ?f)" by (rule scrape_first_container[OF assms])
  have set: "set ?f = set (prices_found rt c)" by (rule sorted_prices_set[OF assms(1)])
  have ne: "?f \<noteq> []" using assms(4) set by (metis set_empty)
  then have mem: "hd ?f \<in> set (prices_found rt c)" "last ?f \<in> set (prices_found rt c)"
    using set by (metis hd_in_set, metis last_in_set)
  have ext: "\<forall>p\<in>set (prices_found rt c). price_key rt (hd ?f) \<le> price_key rt p \<and> price_key rt p \<le> price_key rt (last ?f)"
    using sorted_hd_last[OF sorted_prices_sorted[of rt c]] set by blast
  have "\<forall>p. set (prices_found rt c) = {p} \<longrightarrow> hd ?f = p \<and> last ?f = p" using mem by auto
  with eq mem ext show ?thesis by blast
qed

lemma sample_prices_found:
  "prices_found rt [py ''$20.00'', py ''$20.00'', py ''$0.00'', py ''$15.00'']
     = [py ''$20.00'', py ''$20.00'', py ''$15.00'']"
proof -
  have "normalize_price rt (PyStr (py ''$20.00'')) = py ''$20.00''"
    "normalize_price rt (PyStr (py ''$0.00'')) = py ''$0.00''"
    "normalize_price rt (PyStr (py ''$15.00'')) = py ''$15.00''"
    by (simp_all add: normalize_price_def eval_simps)
  then show ?thesis by (simp add: prices_found_def) (simp add: py_def)
qed


text \<open>
  C3. Within a container every text fragment is normalized and the empty results and the
  exact value \<open>$0.00\<close> are discarded. When no container has a price left, both prices are
  empty. Otherwise the first container that has one decides, whatever follows it: sale and
  regular price are prices of that container, the sale price has the least and the regular
  price the greatest sort key among them, and both are the one price when only one distinct
  price is left. The fragments \<open>$20.00\<close>, \<open>$20.00\<close>, \<open>$0.00\<close>, \<open>$15.00\<close> give sale
  \<open>$15.00\<close> and regular \<open>$20.00\<close>.
\<close>

theorem scrape_prices_min_max:
  assumes "iterates_sets rt"
  shows
   "set (prices_found rt c) = {normalize_price rt (PyStr t) | t. t \<in> set c} - {[], py ''$0.00''} \<and>
    ((\<forall>c'\<in>set (price_containers page). prices_found rt c' = []) \<longrightarrow>
        scrape_prices rt page = ([], [])) \<and>
    (price_containers page = pre @ c # post \<and> (\<forall>c'\<in>set pre. prices_found rt c' = []) \<and>
     prices_found rt c \<noteq> [] \<longrightarrow>
        (\<exists>s r. scrape_prices rt page = (s, r) \<and>
           s \<in> set (prices_found rt c) \<and> r \<in> set (prices_found rt c) \<and>
           (\<forall>p\<in>set (prices_found rt c).
               price_key rt s \<le> price_key rt p \<and> price_key rt p \<le> price_key rt r) \<and>
           (\<forall>p. set (prices_found rt c) = {p} \<longrightarrow> s = p \<and> r = p))) \<and>
    (price_containers page = [[py ''$20.00'', py ''$20.00'', py ''$0.00'', py ''$15.00'']] \<and>
     price_key rt (py ''$15.00'') < price_key rt (py ''$20.00'') \<longrightarrow>
        scrape_prices rt page = (py ''$15.00'', py ''$20.00''))"
proof (intro conjI impI)
  show "set (prices_found rt c) = {normalize_price rt (PyStr t) | t. t \<in> set c} - {[], py ''$0.00''}"
    by (rule prices_found_set)
next
  assume "\<forall>c'\<in>set (price_containers page). prices_found rt c' = []"
  then have "\<forall>c'\<in>set (price_containers page). sorted_prices rt c' = []"
    using sorted_prices_empty[OF assms] by blast
  from scan_none[OF this] show "scrape_prices rt page = ([], [])"
    by (simp add: scrape_prices_def or_empty_def)
next
  assume "price_containers page = pre @ c # post \<and> (\<forall>c'\<in>set pre. prices_found rt c' = []) \<and>
     prices_found rt c \<noteq> []"
  then show "\<exists>s r. scrape_prices rt page = (s, r) \<and>
           s \<in> set (prices_found rt c) \<and> r \<in> set (prices_found rt c) \<and>
           (\<forall>p\<in>set (prices_found rt c).
               price_key rt s \<le> price_key rt p \<and> price_key rt p \<le> price_key rt r) \<and>
           (\<forall>p. set (prices_found rt c) = {p} \<longrightarrow> s = p \<and> r = p)"
    using scrape_extremes[OF assms, of page pre c post] by blast
next
  let ?c = "[py ''$20.00'', py ''$20.00'', py ''$0.00'', py ''$15.00'']"
  assume a: "price_containers page = [?c] \<and>
     price_key rt (py ''$15.00'') < price_key rt (py ''$20.00'')"
  have pf: "set (prices_found rt ?c) = {py ''$20.00'', py ''$15.00''}"
    by (simp add: sample_prices_found)
  from a have "price_containers page = [] @ ?c # []" by simp
  from scrape_extremes[OF assms this] pf obtain s r where
    sr: "scrape_prices rt page = (s, r)"
    and s: "s = py ''$20.00'' \<or> s = py ''$15.00''" and r: "r = py ''$20.00'' \<or> r = py ''$15.00''"
    and le: "price_key rt s \<le> price_key rt (py ''$15.00'')"
            "price_key rt (py ''$20.00'') \<le> price_key rt r"
    by (auto simp: sample_prices_found)
  from s le(1) a have "s = py ''$15.00''" by auto
  moreover from r le(2) a have "r = py ''$20.00''" by auto
  ultimately show "scrape_prices rt page = (py ''$15.00'', py ''$20.00'')" using sr by simp
qed

lemma iterates_sets_ascii: "iterates_sets ascii_rt"
  by (simp add: iterates_sets_def ascii_rt_def)

lemma sample_keys: "price_key ascii_rt (py ''$15.00'') < price_key ascii_rt (py ''$20.00'')"
  by (simp add: price_key_def ascii_rt_def hundredths_def py_def dollar_def rupee_def dot_def)

theorem scrape_prices_min_max_witness:
  "iterates_sets ascii_rt \<and>
   price_containers sample_page = [[py ''$20.00'', py ''$20.00'', py ''$0.00'', py ''$15.00'']] \<and>
   price_key ascii_rt (py ''$15.00'') < price_key ascii_rt (py ''$20.00'') \<and>
   scrape_prices ascii_rt sample_page = (py ''$15.00'', py ''$20.00'')"
proof -
  have c: "price_containers sample_page = [[py ''$20.00'', py ''$20.00'', py ''$0.00'', py ''$15.00'']]"
    by (simp add: sample_page_def no_page_def)
  from scrape_prices_min_max[OF iterates_sets_ascii, of "[]" sample_page "[]" "[]"] c sample_keys
  have "scrape_prices ascii_rt sample_page = (py ''$15.00'', py ''$20.00'')" by blast
  with iterates_sets_ascii c sample_keys show ?thesis by blast
qed

text \<open>What the scan holds at any time: nothing, or the two ends of one container's sorted
  prices.\<close>
lemma scan_invariant:
  assumes "st = (None, None) \<or>
           (\<exists>c. sorted_prices rt c \<noteq> [] \<and>
                st = (Some (hd (sorted_prices rt c)), Some (last (sorted_prices rt c))))"
  shows "scan_containers rt st cs = (None, None) \<or>
         (\<exists>c. sorted_prices rt c \<noteq> [] \<and>
              scan_containers rt st cs
                = (Some (hd (sorted_prices rt c)), Some (last (sorted_prices rt c))))"
  using assms
proof (induction cs arbitrary: st)
  case Nil
  then show ?case by (cases st) auto
next
  case (Cons c cs)
  obtain a b where st: "st = (a, b)" by (cases st)
  let ?f = "sorted_prices rt c"
  let ?st' = "if length ?f = 1 then (Some (hd ?f), Some (hd ?f))
              else if length ?f \<ge> 2 then (Some (hd ?f), Some (last ?f)) else (a, b)"
  have one: "length ?f = 1 \<Longrightarrow> last ?f = hd ?f" by (cases ?f) auto
  have inv': "?st' = (None, None) \<or>
           (\<exists>c. sorted_prices rt c \<noteq> [] \<and>
                ?st' = (Some (hd (sorted_prices rt c)), Some (last (sorted_prices rt c))))"
  proof (cases "?f = []")
    case True
    then show ?thesis using Cons.prems st by simp
  next
    case False
    then have "length ?f = 1 \<or> length ?f \<ge> 2" by (cases ?f) (auto simp: Suc_le_eq)
    then have "?st' = (Some (hd ?f), Some (last ?f))" using one by auto
    with False show ?thesis by blast
  qed
  have step: "scan_containers rt st (c # cs) = ?st' \<or>
              scan_containers rt st (c # cs) = scan_containers rt ?st' cs"
    unfolding st by (simp add: scan_containers.simps(2) Let_def split: prod.splits)
  from step show ?case
  proof
    assume "scan_containers rt st (c # cs) = ?st'"
    with inv' show ?thesis by simp
  next
    assume "scan_containers rt st (c # cs) = scan_containers rt ?st' cs"
    with Cons.IH[OF inv'] show ?thesis by simp
  qed
qed

text \<open>
  C10. Whenever price extraction returns a non-empty sale price and a non-empty regular
  price, the sort key (the numeric value) of the sale price is at most that of the regular
  price.
\<close>

theorem sale_price_not_above_regular:
  assumes "scrape_prices rt page = (sale_price, regular_price)"
    "sale_price \<noteq> []" "regular_price \<noteq> []"
  shows "price_key rt sale_price \<le> price_key rt regular_price"
proof -
  from scan_invariant[of "(None, None)" rt "price_containers page"]
  have "scan_containers rt (None, None) (price_containers page) = (None, None) \<or>
         (\<exists>c. sorted_prices rt c \<noteq> [] \<and>
              scan_containers rt (None, None) (price_containers page)
                = (Some (hd (sorted_prices rt c)), Some (last (sorted_prices rt c))))"
    by simp
  then show ?thesis
  proof
    assume "scan_containers rt (None, None) (price_containers page) = (None, None)"
    with assms(1,2) show ?thesis by (simp add: scrape_prices_def or_empty_def)
  next
    assume "\<exists>c. sorted_prices rt c \<noteq> [] \<and>
            scan_containers rt (None, None) (price_containers page)
              = (Some (hd (sorted_prices rt c)), Some (last (sorted_prices rt c)))"
    then obtain c where ne: "sorted_prices rt c \<noteq> []"
      and eq: "scan_containers rt (None, None) (price_containers page)
              = (Some (hd (sorted_prices rt c)), Some (last (sorted_prices rt c)))" by blast
    from eq assms(1) have "sale_price = hd (sorted_prices rt c)" "regular_price = last (sorted_prices rt c)"
      by (simp_all add: scrape_prices_def or_empty_def)
    moreover have "last (sorted_prices rt c) \<in> set (sorted_prices rt c)" using ne by simp
    ultimately show ?thesis using sorted_hd_last[OF sorted_prices_sorted[of rt c]] by blast
  qed
qed

theorem sale_price_not_above_regular_witness:
  "scrape_prices ascii_rt sample_page = (py ''$15.00'', py ''$20.00'') \<and>
   py ''$15.00'' \<noteq> [] \<and> py ''$20.00'' \<noteq> [] \<and>
   price_key ascii_rt (py ''$15.00'') \<le> price_key ascii_rt (py ''$20.00'')"
proof -
  have c: "price_containers sample_page = [] @ [py ''$20.00'', py ''$20.00'', py ''$0.00'', py ''$15.00''] # []"
    by (simp add: sample_page_def no_page_def)
  have sp: "sorted_prices ascii_rt [py ''$20.00'', py ''$20.00'', py ''$0.00'', py ''$15.00'']
      = [py ''$15.00'', py ''$20.00'']"
    unfolding sorted_prices_def sample_prices_found
    by (simp add: ordered_unique_def ascii_rt_def price_key_def hundredths_def py_def dollar_def rupee_def dot_def)
  have e: "scrape_prices ascii_rt sample_page = (py ''$15.00'', py ''$20.00'')"
    using scrape_first_container[OF iterates_sets_ascii c] by (simp add: sample_prices_found sp)
  have n: "py ''$15.00'' \<noteq> [] \<and> py ''$20.00'' \<noteq> []" by (simp add: py_def)
  from sale_price_not_above_regular[OF e] n
  have "price_key ascii_rt (py ''$15.00'') \<le> price_key ascii_rt (py ''$20.00'')" by blast
  with e n show ?thesis by blast
qed

lemma starts_with_prefix: "starts_with s n \<longleftrightarrow> (\<exists>post. s = n @ post)"
  by (induction s n rule: starts_with.induct) auto

lemma contains_substring: "contains n s \<longleftrightarrow> substring n s"
proof (induction s)
  case Nil
  then show ?case by (auto simp: substring_def)
next
  case (Cons c s)
  have "substring n (c # s) \<longleftrightarrow> (\<exists>post. c # s = n @ post) \<or> substring n s"
  proof
    assume "substring n (c # s)"
    then obtain pre post where e: "c # s = pre @ n @ post" unfolding substring_def by blast
    show "(\<exists>post. c # s = n @ post) \<or> substring n s"
    proof (cases pre)
      case Nil
      with e show ?thesis by auto
    next
      case (Cons d pre')
      with e have "s = pre' @ n @ post" by simp
      then show ?thesis unfolding substring_def by blast
    qed
  next
    assume "(\<exists>post. c # s = n @ post) \<or> substring n s"
    then show "substring n (c # s)"
    proof
      assume "\<exists>post. c # s = n @ post"
      then obtain post where "c # s = [] @ n @ post" by auto
      then show ?thesis unfolding substring_def by blast
    next
      assume "substring n s"
      then obtain pre post where "s = pre @ n @ post" unfolding substring_def by blast
      then have "c # s = (c # pre) @ n @ post" by simp
      then show ?thesis unfolding substring_def by blast
    qed
  qed
  then show ?case using Cons by (simp add: starts_with_prefix)
qed

lemma buttons_loop_exists:
  "buttons_loop rt bs =
     (if \<exists>b\<in>set bs. cart_phrase (str_lower rt (btn_text b)) \<and> \<not> btn_disabled b
      then py ''Available'' else py ''Unknown'')"
  by (induction bs) auto

text \<open>
  C4. Availability is \<open>Sold Out\<close> whenever the lower-cased page text contains one of the
  phrases \<open>sold out\<close>, \<open>out of stock\<close>, \<open>unavailable\<close>, whatever the buttons are;
  otherwise it is \<open>Available\<close> when some button whose lower-cased text contains
  \<open>add to cart\<close>, \<open>buy now\<close> or \<open>add to bag\<close> is not disabled; otherwise \<open>Unknown\<close>.
\<close>

theorem availability_classification:
  "scrape_availability rt page =
     (if \<exists>x\<in>set sold_out_texts. substring x (str_lower rt (page_text page))
      then py ''Sold Out''
      else if \<exists>b\<in>set (buttons page).
                (substring (py ''add to cart'') (str_lower rt (btn_text b)) \<or>
                 substring (py ''buy now'') (str_lower rt (btn_text b)) \<or>
                 substring (py ''add to bag'') (str_lower rt (btn_text b))) \<and>
                \<not> btn_disabled b
           then py ''Available''
           else py ''Unknown'') \<and>
   ((\<exists>x\<in>set sold_out_texts. substring x (str_lower rt (page_text page))) \<longrightarrow>
      (\<forall>bs. scrape_availability rt (page\<lparr>buttons := bs\<rparr>) = py ''Sold Out''))"
  by (simp add: scrape_availability_def list_ex_iff buttons_loop_exists cart_phrase_def
      contains_substring)


theorem availability_classification_witness:
  "(\<exists>x\<in>set sold_out_texts. substring x (str_lower ascii_rt (page_text sold_out_page))) \<and>
   scrape_availability ascii_rt sold_out_page = py ''Sold Out'' \<and>
   scrape_availability ascii_rt (sold_out_page\<lparr>buttons := []\<rparr>) = py ''Sold Out'' \<and>
   scrape_availability ascii_rt in_stock_page = py ''Available''"
proof -
  have "contains (py ''sold out'') (str_lower ascii_rt (page_text sold_out_page))"
    by (simp add: sold_out_page_def no_page_def ascii_rt_def ascii_lower_def py_def)
  then have h: "\<exists>x\<in>set sold_out_texts. substring x (str_lower ascii_rt (page_text sold_out_page))"
    by (auto simp: sold_out_texts_def contains_substring)
  note t = availability_classification[of ascii_rt sold_out_page]
  from t h have 1: "scrape_availability ascii_rt sold_out_page = py ''Sold Out''" by simp
  from t h have 2: "scrape_availability ascii_rt (sold_out_page\<lparr>buttons := []\<rparr>) = py ''Sold Out''"
    by blast
  have 3: "scrape_availability ascii_rt in_stock_page = py ''Available''"
    by (simp add: scrape_availability_def in_stock_page_def no_page_def ascii_rt_def
        ascii_lower_def sold_out_texts_def cart_phrase_def py_def)
  from h 1 2 3 show ?thesis by blast
qed

lemma requests_get_with_retry_None:
  "requests_get_with_retry http url = None \<longleftrightarrow> (\<forall>a\<in>{1..MAX_RETRIES}. http url a = None)"
proof -
  have "{1..MAX_RETRIES} = {1, 2, 3}" by (auto simp: MAX_RETRIES_def)
  then show ?thesis
    by (auto simp: requests_get_with_retry_unfold split: option.splits)
qed

lemma scrape_products_acc:
  "scrape_products rt http today (results, errors) urls =
     (results @ map (\<lambda>u. scrape_page rt today u (resp_page (the (requests_get_with_retry http u))))
                  (filter (\<lambda>u. requests_get_with_retry http u \<noteq> None) urls),
      errors @ filter (\<lambda>u. requests_get_with_retry http u = None) urls)"
  by (induction urls arbitrary: results errors) (auto split: option.splits)

lemma Link_scrape_page: "Link (scrape_page rt today u page) = u"
  by (simp add: scrape_page_def split: prod.splits)

lemma drop_duplicates_links:
  "set (map Link (drop_duplicates seen rows)) = set (map Link rows) - set seen \<and>
   distinct (map Link (drop_duplicates seen rows))"
  by (induction seen rows rule: drop_duplicates.induct) auto


text \<open>
  C9. A fetch returns \<open>None\<close> exactly when all \<open>MAX_RETRIES\<close> attempts fail. The product
  loop puts exactly the URLs whose fetch returned \<open>None\<close> in the error list, in order, and
  scrapes all the others: a failing URL changes nothing in the rows of the URLs before and
  after it. The crawl always yields a snapshot, one row per fetched URL, and the error
  list; when every fetch fails the snapshot is empty and every URL is reported.
\<close>

theorem failed_fetch_is_skipped:
  "(requests_get_with_retry http url = None \<longleftrightarrow> (\<forall>a\<in>{1..MAX_RETRIES}. http url a = None)) \<and>
   scrape_products rt http today ([], []) urls =
     (map (\<lambda>u. scrape_page rt today u (resp_page (the (requests_get_with_retry http u))))
        (filter (\<lambda>u. requests_get_with_retry http u \<noteq> None) urls),
      filter (\<lambda>u. requests_get_with_retry http u = None) urls) \<and>
   (requests_get_with_retry http url = None \<longrightarrow>
      fst (scrape_products rt http today ([], []) (before @ url # after))
        = fst (scrape_products rt http today ([], []) (before @ after)) \<and>
      url \<in> set (snd (scrape_products rt http today ([], []) (before @ url # after)))) \<and>
   snd (crawl rt http today urls) = filter (\<lambda>u. requests_get_with_retry http u = None) urls \<and>
   set (map Link (fst (crawl rt http today urls)))
     = {u \<in> set urls. requests_get_with_retry http u \<noteq> None} \<and>
   distinct (map Link (fst (crawl rt http today urls))) \<and>
   ((\<forall>u\<in>set urls. requests_get_with_retry http u = None) \<longrightarrow>
      crawl rt http today urls = ([], urls))"
proof (intro conjI)
  show "requests_get_with_retry http url = None \<longleftrightarrow> (\<forall>a\<in>{1..MAX_RETRIES}. http url a = None)"
    by (rule requests_get_with_retry_None)
  show "scrape_products rt http today ([], []) urls =
     (map (\<lambda>u. scrape_page rt today u (resp_page (the (requests_get_with_retry http u))))
        (filter (\<lambda>u. requests_get_with_retry http u \<noteq> None) urls),
      filter (\<lambda>u. requests_get_with_retry http u = None) urls)"
    by (simp add: scrape_products_acc)
  show "requests_get_with_retry http url = None \<longrightarrow>
      fst (scrape_products rt http today ([], []) (before @ url # after))
        = fst (scrape_products rt http today ([], []) (before @ after)) \<and>
      url \<in> set (snd (scrape_products rt http today ([], []) (before @ url # after)))"
    by (simp add: scrape_products_acc)
  show "snd (crawl rt http today urls) = filter (\<lambda>u. requests_get_with_retry http u = None) urls"
    by (simp add: crawl_def scrape_products_acc)
  define rows where "rows = map (\<lambda>u. scrape_page rt today u (resp_page (the (requests_get_with_retry http u))))
        (filter (\<lambda>u. requests_get_with_retry http u \<noteq> None) urls)"
  have c: "fst (crawl rt http today urls) = drop_duplicates [] rows"
    by (simp add: crawl_def scrape_products_acc rows_def)
  have l: "map Link rows = filter (\<lambda>u. requests_get_with_retry http u \<noteq> None) urls"
    unfolding rows_def by (simp add: Link_scrape_page comp_def)
  have "set (map Link (drop_duplicates [] rows)) = set (map Link rows)"
    using drop_duplicates_links[of "[]" rows] by simp
  also have "\<dots> = {u \<in> set urls. requests_get_with_retry http u \<noteq> None}"
    unfolding l by simp
  finally show "set (map Link (fst (crawl rt http today urls)))
     = {u \<in> set urls. requests_get_with_retry http u \<noteq> None}"
    unfolding c .
  show "distinct (map Link (fst (crawl rt http today urls)))"
    unfolding c using drop_duplicates_links[of "[]" rows] by simp
  show "(\<forall>u\<in>set urls. requests_get_with_retry http u = None) \<longrightarrow>
      crawl rt http today urls = ([], urls)"
  proof
    assume a: "\<forall>u\<in>set urls. requests_get_with_retry http u = None"
    then have "filter (\<lambda>u. requests_get_with_retry http u \<noteq> None) urls = []"
      by (simp add: filter_empty_conv)
    moreover from a have "filter (\<lambda>u. requests_get_with_retry http u = None) urls = urls"
      by (simp add: filter_id_conv)
    ultimately show "crawl rt http today urls = ([], urls)"
      by (simp add: crawl_def scrape_products_acc)
  qed
qed

lemma sample_gone: "requests_get_with_retry sample_http (py ''/gone'') = None"
  by (simp add: requests_get_with_retry_unfold sample_http_def MAIN_SITEMAP_URL_def py_def)

theorem failed_fetch_is_skipped_witness:
  "requests_get_with_retry sample_http (py ''/gone'') = None \<and>
   crawl ascii_rt sample_http [] [py ''/gone''] = ([], [py ''/gone'']) \<and>
   snd (crawl ascii_rt sample_http [] [py ''/gone'', MAIN_SITEMAP_URL]) = [py ''/gone''] \<and>
   map Link (fst (scrape_products ascii_rt sample_http [] ([], []) [py ''/gone'', MAIN_SITEMAP_URL]))
     = [MAIN_SITEMAP_URL]"
proof -
  note t = failed_fetch_is_skipped[of sample_http "py ''/gone''" ascii_rt "[]" "[py ''/gone'']" "[]" "[MAIN_SITEMAP_URL]"]
  from t sample_gone have 1: "crawl ascii_rt sample_http [] [py ''/gone''] = ([], [py ''/gone''])"
    by simp
  note t2 = failed_fetch_is_skipped[of sample_http "py ''/gone''" ascii_rt "[]" "[py ''/gone'', MAIN_SITEMAP_URL]" "[]" "[MAIN_SITEMAP_URL]"]
  from t2 have "snd (crawl ascii_rt sample_http [] [py ''/gone'', MAIN_SITEMAP_URL])
      = filter (\<lambda>u. requests_get_with_retry sample_http u = None) [py ''/gone'', MAIN_SITEMAP_URL]"
    by blast
  then have 2: "snd (crawl ascii_rt sample_http [] [py ''/gone'', MAIN_SITEMAP_URL]) = [py ''/gone'']"
    by (simp add: sample_gone sample_master_fetch)
  from t2 sample_gone
  have "fst (scrape_products ascii_rt sample_http [] ([], []) ([] @ py ''/gone'' # [MAIN_SITEMAP_URL]))
      = fst (scrape_products ascii_rt sample_http [] ([], []) ([] @ [MAIN_SITEMAP_URL]))"
    by blast
  then have 3: "map Link (fst (scrape_products ascii_rt sample_http [] ([], []) [py ''/gone'', MAIN_SITEMAP_URL]))
     = [MAIN_SITEMAP_URL]"
    by (simp add: sample_master_fetch Link_scrape_page)
  from sample_gone 1 2 3 show ?thesis by blast
qed

lemma safe_float_empty: "safe_float rt (Str []) = None"
  by (simp add: safe_float_def cell_str_def strip_def)

lemma no_old_price_no_change:
  "Sale_Price_old row = Str [] \<Longrightarrow> Regular_Price_old row = Str [] \<Longrightarrow>
     format_price_changes rt row = []"
  by (simp add: format_price_changes_def safe_float_empty split: option.splits)

text \<open>\<open>format_price_changes\<close> reports a change exactly when, for the regular or for the
  sale price, both sides parse and the rounded values differ.\<close>
lemma format_price_changes_iff:
  "format_price_changes rt row \<noteq> [] \<longleftrightarrow>
     (\<exists>new old. safe_float rt (cur_Regular_Price (current row)) = Some new \<and>
        safe_float rt (Regular_Price_old row) = Some old \<and> float_differs rt new old) \<or>
     (\<exists>new old. safe_float rt (cur_Sale_Price (current row)) = Some new \<and>
        safe_float rt (Sale_Price_old row) = Some old \<and> float_differs rt new old)"
  by (auto simp: format_price_changes_def split: option.splits)

lemma saved_baseline_has: "has_baseline saved_baseline"
  by (simp add: has_baseline_def saved_baseline_def)

lemma saved_baseline_prices:
  "prev_prices rt saved_baseline =
     [\<lparr> prev_Link = normalize_link rt (py ''/p1''), prev_Sale_Price = Str [],
        prev_Regular_Price = Str [], prev_Title = Str [] \<rparr>]"
  by (simp add: prev_prices_def prepare_prev_def saved_baseline_def p1_before_def)

lemma saved_baseline_merged:
  "left_merge [p1_current \<lparr> cur_Link := normalize_link rt (cur_Link p1_current),
                             cur_Sale_Price := fillna (cur_Sale_Price p1_current),
                             cur_Regular_Price := fillna (cur_Regular_Price p1_current) \<rparr>]
       (prev_prices rt saved_baseline)
     = [\<lparr> current = p1_current \<lparr> cur_Link := normalize_link rt (py ''/p1'') \<rparr>,
          Sale_Price_old = Str [], Regular_Price_old = Str [], Title_old = Str [] \<rparr>]"
  by (simp add: saved_baseline_prices left_merge_def p1_current_def fillna_def)

lemma saved_baseline_view:
  "\<exists>v. dashboard rt [p1_current] saved_baseline = Shown v \<and> length (merged v) = 1 \<and>
       filtered_changes v = [] \<and> new_products_shown v = []"
proof -
  have "old_links_hit": "normalize_link rt (py ''/p1'') \<in> set (map prev_Link (prepare_prev rt saved_baseline))"
    by (simp add: prepare_prev_def saved_baseline_def p1_before_def)
  show ?thesis
    unfolding dashboard_def Let_def
    using saved_baseline_has[where 'a='a] old_links_hit
    by (simp add: saved_baseline_merged no_old_price_no_change del: set_map)
qed

lemma unpriced_logged:
  "price_changes_logged (compare (Old_frame [p1_unpriced]) [p1_scraped]) = [(p1_unpriced, p1_scraped)]"
  by (simp add: compare_def Let_def merge_on_link_def p1_unpriced_def p1_scraped_def
      price_changed_def differs_def cell_truthy_def py_def)


lemma plain_float_8: "plain_float (py ''8.00'') = Some 800"
  by (simp add: plain_float_def py_def dot_def hundredths_def)

lemma plain_float_10: "plain_float (py ''10.00'') = Some 1000"
  by (simp add: plain_float_def py_def dot_def hundredths_def)

lemma safe_float_8: "safe_float plain_dash (Str (py ''$8.00'')) = Some 800"
proof -
  have "strip (filter (\<lambda>c. c \<noteq> dollar \<and> c \<noteq> rupee \<and> c \<noteq> comma) (py ''$8.00'')) = py ''8.00''"
    by (simp add: py_def strip_def dollar_def rupee_def comma_def is_space_def)
  moreover have "py ''8.00'' \<noteq> []" by (simp add: py_def)
  ultimately show ?thesis
    by (simp add: safe_float_def cell_str_def plain_dash_def plain_float_8)
qed

lemma safe_float_10: "safe_float plain_dash (Str (py ''$10.00'')) = Some 1000"
proof -
  have "strip (filter (\<lambda>c. c \<noteq> dollar \<and> c \<noteq> rupee \<and> c \<noteq> comma) (py ''$10.00'')) = py ''10.00''"
    by (simp add: py_def strip_def dollar_def rupee_def comma_def is_space_def)
  moreover have "py ''10.00'' \<noteq> []" by (simp add: py_def)
  ultimately show ?thesis
    by (simp add: safe_float_def cell_str_def plain_dash_def plain_float_10)
qed

lemma normalize_link_p1: "normalize_link plain_dash (py ''/p1'') = py ''/p1''"
  by (simp add: normalize_link_def plain_dash_def ascii_lower_def py_def slash_def)

lemma normalize_link_P1: "normalize_link plain_dash (py ''/P1/'') = py ''/p1''"
  by (simp add: normalize_link_def plain_dash_def ascii_lower_def py_def slash_def)

text \<open>With the prices of the baseline kept, as \<open>Final Final/app.py\<close> keeps them and as
  \<open>app.py\<close> does for a baseline with a \<open>Title\<close> column, the example of the specification
  gives the one change of the sale price from 8.00 to 10.00.\<close>
lemma kept_prices_report_sale_change:
  "map (format_price_changes plain_dash)
     (left_merge [p1_current] (prev_prices_final plain_dash saved_baseline))
     = [[Sale_Price_change 800 1000]] \<and>
   map (format_price_changes plain_dash)
     (left_merge [p1_current] (prev_prices plain_dash titled_baseline))
     = [[Sale_Price_change 800 1000]]"
proof -
  have f: "fillna (Str (py ''$8.00'')) = Str (py ''$8.00'')" "fillna (Str (py ''$10.00'')) = Str (py ''$10.00'')"
    by (simp_all add: fillna_def)
  have 1: "prev_prices_final plain_dash saved_baseline = [p1_before]"
    by (simp add: prev_prices_final_def prepare_prev_def saved_baseline_def p1_before_def
        normalize_link_p1 f)
  have 2: "prev_prices plain_dash titled_baseline = [p1_before]"
    by (simp add: prev_prices_def prepare_prev_def titled_baseline_def p1_before_def
        normalize_link_p1 f)
  have 3: "left_merge [p1_current] [p1_before]
      = [\<lparr> current = p1_current, Sale_Price_old = Str (py ''$8.00''),
           Regular_Price_old = Str (py ''$10.00''), Title_old = Str (py ''Ring'') \<rparr>]"
    by (simp add: left_merge_def p1_current_def p1_before_def)
  have 4: "format_price_changes plain_dash
       \<lparr> current = p1_current, Sale_Price_old = Str (py ''$8.00''),
         Regular_Price_old = Str (py ''$10.00''), Title_old = Str (py ''Ring'') \<rparr>
      = [Sale_Price_change 800 1000]"
    by (simp add: format_price_changes_def p1_current_def safe_float_8 safe_float_10)
       (simp add: plain_dash_def)
  show ?thesis by (simp add: 1 2 3 4)
qed

text \<open>
  C1. The claim fails on the code. In \<open>app.py\<close> the baseline that the dashboard itself
  saves has no \<open>Title\<close> column, so its prices are replaced by empty strings before the
  comparison: for the example of the claim (current \<open>/p1\<close> at \<open>$10.00\<close>, baseline sale
  price \<open>$8.00\<close>) the pair is joined and no price change is reported, whatever the
  runtime. In \<open>Scraper.py\<close> a previous row with empty price fields, joined with a current
  row that has a price, is logged as a price change.
\<close>

theorem price_change_missed_and_misreported:
  "(\<exists>v. dashboard rt [p1_current] saved_baseline = Shown v \<and> length (merged v) = 1 \<and>
        filtered_changes v = [] \<and> new_products_shown v = []) \<and>
   price_changes_logged (compare (Old_frame [p1_unpriced]) [p1_scraped])
     = [(p1_unpriced, p1_scraped)]"
  using saved_baseline_view[of rt] unpriced_logged by blast


lemma left_merge_match:
  assumes "r \<in> set df" "q \<in> set prev" "prev_Link q = cur_Link r"
  shows "\<lparr> current = r, Sale_Price_old = prev_Sale_Price q,
           Regular_Price_old = prev_Regular_Price q, Title_old = prev_Title q \<rparr>
         \<in> set (left_merge df prev)"
proof -
  let ?ms = "filter (\<lambda>p. prev_Link p = cur_Link r) prev"
  have q: "q \<in> set ?ms" using assms(2,3) by simp
  have "\<lparr> current = r, Sale_Price_old = prev_Sale_Price q,
           Regular_Price_old = prev_Regular_Price q, Title_old = prev_Title q \<rparr>
        \<in> set (case ?ms of
           [] \<Rightarrow> [\<lparr> current = r, Sale_Price_old = NaN, Regular_Price_old = NaN, Title_old = NaN \<rparr>]
         | ms \<Rightarrow> map (\<lambda>p. \<lparr> current = r, Sale_Price_old = prev_Sale_Price p,
                             Regular_Price_old = prev_Regular_Price p,
                             Title_old = prev_Title p \<rparr>) ms)"
  proof (cases ?ms)
    case Nil
    with q show ?thesis by simp
  next
    case (Cons m ms)
    from q have "\<lparr> current = r, Sale_Price_old = prev_Sale_Price q,
           Regular_Price_old = prev_Regular_Price q, Title_old = prev_Title q \<rparr>
        \<in> (\<lambda>p. \<lparr> current = r, Sale_Price_old = prev_Sale_Price p,
                             Regular_Price_old = prev_Regular_Price p,
                             Title_old = prev_Title p \<rparr>) ` set ?ms" by (rule imageI)
    then show ?thesis unfolding Cons by simp
  qed
  then show ?thesis using assms(1) unfolding left_merge_def by auto
qed

lemma fillna_not_NaN: "fillna c \<noteq> NaN"
  by (cases c) (simp_all add: fillna_def)

lemma prev_prices_sale: "q \<in> set (prev_prices rt prev_df) \<Longrightarrow> prev_Sale_Price q \<noteq> NaN"
  by (auto simp: prev_prices_def prepare_prev_def fillna_not_NaN split: if_splits)

lemma prev_prices_links:
  "map prev_Link (prev_prices rt prev_df) = map (\<lambda>p. normalize_link rt (prev_Link p)) (prev_rows prev_df)"
  by (simp add: prev_prices_def prepare_prev_def comp_def)

lemma prepare_prev_links:
  "map prev_Link (prepare_prev rt prev_df) = map (\<lambda>p. normalize_link rt (prev_Link p)) (prev_rows prev_df)"
  by (simp add: prepare_prev_def comp_def)

text \<open>In the dashboard, a current row whose normalized link is the normalized link of a
  baseline row is joined with the baseline and is not shown as new.\<close>
lemma dashboard_matches_normalized_links:
  assumes "has_baseline prev_df" "c \<in> set df" "p \<in> set (prev_rows prev_df)"
    "normalize_link rt (cur_Link c) = normalize_link rt (prev_Link p)"
  shows "\<exists>v. dashboard rt df prev_df = Shown v \<and>
           (\<forall>row\<in>set (new_products_shown v).
               cur_Link (current row) \<noteq> normalize_link rt (cur_Link c)) \<and>
           (\<exists>row\<in>set (merged v). cur_Link (current row) = normalize_link rt (cur_Link c) \<and>
               Sale_Price_old row \<noteq> NaN)"
proof -
  let ?n = "\<lambda>r. r \<lparr> cur_Link := normalize_link rt (cur_Link r),
                     cur_Sale_Price := fillna (cur_Sale_Price r),
                     cur_Regular_Price := fillna (cur_Regular_Price r) \<rparr>"
  let ?L = "normalize_link rt (cur_Link c)"
  let ?pp = "prev_prices rt prev_df"
  let ?old = "set (map prev_Link (prepare_prev rt prev_df))"
  have ne: "df \<noteq> []" using assms(2) by auto
  have old: "?L \<in> ?old"
    unfolding prepare_prev_links using assms(3,4) by force
  have "?L \<in> set (map prev_Link ?pp)"
    unfolding prev_prices_links using assms(3,4) by force
  then obtain q where q: "q \<in> set ?pp" "prev_Link q = ?L" by auto
  have nc: "?n c \<in> set (map ?n df)" using assms(2) by simp
  have "cur_Link (?n c) = ?L" by simp
  with q have "prev_Link q = cur_Link (?n c)" by simp
  from left_merge_match[OF nc q(1) this]
  have row: "\<lparr> current = ?n c, Sale_Price_old = prev_Sale_Price q,
           Regular_Price_old = prev_Regular_Price q, Title_old = prev_Title q \<rparr>
         \<in> set (left_merge (map ?n df) ?pp)" .
  define v where "v = \<lparr> all_products = map ?n df,
                    merged = left_merge (map ?n df) ?pp,
                    filtered_changes = filter (\<lambda>row. format_price_changes rt row \<noteq> []) (left_merge (map ?n df) ?pp),
                    new_products_shown = filter (\<lambda>row. cur_Link (current row) \<notin> ?old) (left_merge (map ?n df) ?pp) \<rparr>"
  have d: "dashboard rt df prev_df = Shown v"
    using ne assms(1) unfolding dashboard_def Let_def v_def by simp
  have 1: "\<forall>row\<in>set (new_products_shown v). cur_Link (current row) \<noteq> ?L"
    using old unfolding v_def by auto
  have 2: "\<exists>row\<in>set (merged v). cur_Link (current row) = ?L \<and> Sale_Price_old row \<noteq> NaN"
    unfolding v_def using row prev_prices_sale[OF q(1)]
    by (intro bexI[of _ "\<lparr> current = ?n c, Sale_Price_old = prev_Sale_Price q,
           Regular_Price_old = prev_Regular_Price q, Title_old = prev_Title q \<rparr>"]) simp_all
  from d 1 2 show ?thesis by blast
qed

lemma other_spelling_compare:
  "new_products (compare (Old_frame [p1_other_spelling]) [p1_scraped]) = [p1_scraped] \<and>
   removed_products (compare (Old_frame [p1_other_spelling]) [p1_scraped]) = {py ''https://nidhiratna.com/products/P1/''} \<and>
   price_changes_logged (compare (Old_frame [p1_other_spelling]) [p1_scraped]) = [] \<and>
   merge_on_link [p1_other_spelling] [p1_scraped] = []"
  by (simp add: compare_def Let_def merge_on_link_def p1_other_spelling_def p1_scraped_def py_def)

text \<open>
  C2. The claim fails on \<open>Scraper.py\<close>, which compares the links as they are: a previous
  row for \<open>.../products/P1/\<close> and a current row for \<open>.../products/p1\<close> are not joined,
  the current product is listed as new and the previous link as removed, and the prices
  are not compared. The dashboard normalizes both sides: there \<open>/P1/\<close> and \<open>/p1\<close> are
  joined as one product.
\<close>

theorem crawler_compares_raw_links:
  "new_products (compare (Old_frame [p1_other_spelling]) [p1_scraped]) = [p1_scraped] \<and>
   removed_products (compare (Old_frame [p1_other_spelling]) [p1_scraped]) = {py ''https://nidhiratna.com/products/P1/''} \<and>
   price_changes_logged (compare (Old_frame [p1_other_spelling]) [p1_scraped]) = [] \<and>
   merge_on_link [p1_other_spelling] [p1_scraped] = [] \<and>
   normalize_link plain_dash (py ''/P1/'') = normalize_link plain_dash (py ''/p1'') \<and>
   (\<exists>v. dashboard plain_dash [p1_current]
           (titled_baseline \<lparr> prev_rows := [p1_spelled_before] \<rparr>) = Shown v \<and>
        new_products_shown v = [] \<and> length (merged v) = 1 \<and> length (filtered_changes v) = 1)"
proof -
  have n: "normalize_link plain_dash (py ''/P1/'') = normalize_link plain_dash (py ''/p1'')"
    by (simp add: normalize_link_p1 normalize_link_P1)
  have f: "fillna (Str (py ''$8.00'')) = Str (py ''$8.00'')" "fillna (Str (py ''$10.00'')) = Str (py ''$10.00'')"
    by (simp_all add: fillna_def)
  have hb: "has_baseline (titled_baseline \<lparr> prev_rows := [p1_spelled_before] \<rparr>)"
    by (simp add: has_baseline_def titled_baseline_def)
  have pr: "prepare_prev plain_dash (titled_baseline \<lparr> prev_rows := [p1_spelled_before] \<rparr>) = [p1_before]"
    by (simp add: prepare_prev_def titled_baseline_def p1_spelled_before_def p1_before_def
        normalize_link_P1 f)
  have pp: "prev_prices plain_dash (titled_baseline \<lparr> prev_rows := [p1_spelled_before] \<rparr>) = [p1_before]"
    by (simp add: prev_prices_def pr) (simp add: titled_baseline_def)
  have cn: "p1_current \<lparr> cur_Link := normalize_link plain_dash (py ''/p1''),
                         cur_Sale_Price := fillna (cur_Sale_Price p1_current),
                         cur_Regular_Price := fillna (cur_Regular_Price p1_current) \<rparr>
      = (p1_current :: nat cur_row)"
    by (simp add: p1_current_def normalize_link_p1 f)
  have lm: "left_merge [p1_current] [p1_before]
      = [\<lparr> current = p1_current, Sale_Price_old = Str (py ''$8.00''),
           Regular_Price_old = Str (py ''$10.00''), Title_old = Str (py ''Ring'') \<rparr>]"
    by (simp add: left_merge_def p1_current_def p1_before_def)
  have fc: "format_price_changes plain_dash
       \<lparr> current = p1_current, Sale_Price_old = Str (py ''$8.00''),
         Regular_Price_old = Str (py ''$10.00''), Title_old = Str (py ''Ring'') \<rparr>
      = [Sale_Price_change 800 1000]"
    by (simp add: format_price_changes_def p1_current_def safe_float_8 safe_float_10)
       (simp add: plain_dash_def)
  have l1: "cur_Link (p1_current :: nat cur_row) = py ''/p1''" by (simp add: p1_current_def)
  have l2: "prev_Link (p1_before :: nat prev_row) = py ''/p1''" by (simp add: p1_before_def)
  have "\<exists>v. dashboard plain_dash [p1_current]
           (titled_baseline \<lparr> prev_rows := [p1_spelled_before] \<rparr>) = Shown v \<and>
        new_products_shown v = [] \<and> length (merged v) = 1 \<and> length (filtered_changes v) = 1"
    unfolding dashboard_def Let_def
    by (simp add: hb cn pp pr lm fc l1 l2)
  with n other_spelling_compare show ?thesis by blast
qed





end
